theory Spec2Isabelle
  imports Main "HOL-Library.Multiset"
begin

section \<open>Breakpoints of one resource\<close>

text \<open>
  The breakpoint classes are imported by \<^verbatim>\<open>debug-session.tsx\<close> from
  \<^verbatim>\<open>./model/debug-breakpoint\<close> and \<^verbatim>\<open>./breakpoint/breakpoint-manager\<close>.
  A declared breakpoint of the store (\<^verbatim>\<open>SourceBreakpoint\<close>) has a resource, an enabled
  flag and the requested position \<^verbatim>\<open>raw\<close>; the adapter answers a \<^verbatim>\<open>setBreakpoints\<close> request
  with one \<^verbatim>\<open>DebugProtocol.Breakpoint\<close> per requested position, whose line is optional.
  Lines are natural numbers; \<open>0\<close> is the falsy number of the source.
\<close>

type_synonym uri = string

record source_raw =
  src_line :: nat
  src_column :: "nat option"

record source_breakpoint =
  sb_uri :: uri
  sb_enabled :: bool
  sb_raw :: source_raw

record adapter_breakpoint =
  ab_verified :: bool
  ab_line :: "nat option"

text \<open>
  \<^verbatim>\<open>DebugBreakpoint\<close>: the fields \<^verbatim>\<open>raw\<close> (absent until the adapter has answered) and
  \<^verbatim>\<open>origins\<close> (the declarations it stands for). The constructor called in
  \<^verbatim>\<open>updateBreakpoints\<close> builds it from one declaration.
\<close>

record debug_breakpoint =
  raw :: "adapter_breakpoint option"
  origins :: "source_breakpoint list"

definition new_DebugBreakpoint :: "source_breakpoint \<Rightarrow> debug_breakpoint" where
  "new_DebugBreakpoint data = \<lparr>raw = None, origins = [data]\<rparr>"

text \<open>
  Modelled from the spec: the getters \<^verbatim>\<open>origin\<close>, \<^verbatim>\<open>enabled\<close> and \<^verbatim>\<open>line\<close> of class
  \<^verbatim>\<open>DebugBreakpoint\<close>, whose file is not part of the sources at hand. The spec gives a
  logical breakpoint a line, an enabled flag and an optional adapter verification
  result with an adjusted line: \<open>origin\<close> is the first declaration, \<open>enabled\<close> is its
  flag, and \<open>line\<close> is the adapter-reported line when the adapter gave one (a truthy
  number), else the requested line of the first declaration.
\<close>

definition origin :: "debug_breakpoint \<Rightarrow> source_breakpoint" where
  "origin b = hd (origins b)"

definition enabled :: "debug_breakpoint \<Rightarrow> bool" where
  "enabled b = sb_enabled (origin b)"

definition line :: "debug_breakpoint \<Rightarrow> nat" where
  "line b =
     (case raw b of
        None \<Rightarrow> src_line (sb_raw (origin b))
      | Some r \<Rightarrow>
          (case ab_line r of
             None \<Rightarrow> src_line (sb_raw (origin b))
           | Some l \<Rightarrow> if l \<noteq> 0 then l else src_line (sb_raw (origin b))))"

text \<open>
  A JavaScript \<^verbatim>\<open>Map\<close> iterates in insertion order and \<^verbatim>\<open>set\<close> on a key that is
  present replaces the value where it stands: an association list with \<open>map_set\<close>.
\<close>

fun map_set :: "'k \<Rightarrow> 'v \<Rightarrow> ('k \<times> 'v) list \<Rightarrow> ('k \<times> 'v) list" where
  "map_set k v [] = [(k, v)]"
| "map_set k v ((k', v') # kvs) =
     (if k' = k then (k, v) # kvs else (k', v') # map_set k v kvs)"

text \<open>
  The test \<^verbatim>\<open>secondary.raw && secondary.raw.line === secondary.origin.raw.line\<close> of
  \<^verbatim>\<open>dedupBreakpoints\<close>: the adapter answered and left the breakpoint on its requested line.
\<close>

definition unshifted :: "debug_breakpoint \<Rightarrow> bool" where
  "unshifted b =
     (case raw b of
        None \<Rightarrow> False
      | Some r \<Rightarrow> ab_line r = Some (src_line (sb_raw (origin b))))"

text \<open>
  One round of the loop of \<^verbatim>\<open>dedupBreakpoints\<close>. The elements of \<^verbatim>\<open>all\<close> are distinct
  objects (each built by \<^verbatim>\<open>new DebugBreakpoint\<close> in \<^verbatim>\<open>updateBreakpoints\<close>), so an entry
  found in \<^verbatim>\<open>lines\<close> is never the breakpoint at hand: \<^verbatim>\<open>primary !== breakpoint\<close> holds
  exactly when the line is already a key. \<^verbatim>\<open>push\<close> appends the secondary's origins to
  the primary's.
\<close>

definition dedup_step ::
  "debug_breakpoint \<Rightarrow> (nat \<times> debug_breakpoint) list \<Rightarrow> (nat \<times> debug_breakpoint) list" where
  "dedup_step breakpoint lines =
     (case map_of lines (line breakpoint) of
        None \<Rightarrow> map_set (line breakpoint) breakpoint lines
      | Some found \<Rightarrow>
          (let (primary, secondary) =
                 (if unshifted breakpoint then (breakpoint, found) else (found, breakpoint));
               primary' = primary\<lparr>origins := origins primary @ origins secondary\<rparr>
           in map_set (line primary') primary' lines))"

definition dedupBreakpoints :: "debug_breakpoint list \<Rightarrow> debug_breakpoint list" where
  "dedupBreakpoints all = map snd (fold dedup_step all [])"


section \<open>The debug session\<close>

subsection \<open>Protocol data\<close>

text \<open>
  Values of the capability set and of adapter-specific configuration fields are JSON
  values; \<open>truthy\<close> is JavaScript's conversion to a boolean, used by every
  \<^verbatim>\<open>if (this.capabilities.x)\<close> of the source.
\<close>

datatype json = JNull | JBool bool | JNum int | JStr string | JArr "json list"

fun truthy :: "json \<Rightarrow> bool" where
  "truthy JNull = False"
| "truthy (JBool b) = b"
| "truthy (JNum n) = (n \<noteq> 0)"
| "truthy (JStr s) = (s \<noteq> [])"
| "truthy (JArr xs) = True"

type_synonym capability_set = "(string \<times> json) list"

text \<open>A rejected request carries a reason with a message (\<^verbatim>\<open>reason.message\<close>).\<close>

datatype error = Error string

fun message :: "error \<Rightarrow> string" where
  "message (Error m) = m"

text \<open>
  \<^verbatim>\<open>DebugConfiguration\<close>: type, request kind and name, and the two marks the session
  manager writes, \<^verbatim>\<open>__resovled\<close> and \<^verbatim>\<open>__configurationId\<close> (absent until assigned).
\<close>

record config =
  cfg_type :: string
  cfg_request :: string
  cfg_name :: string
  cfg_resovled :: bool
  cfg_configurationId :: "nat option"

record raw_thread =
  th_id :: nat
  th_name :: string

text \<open>
  \<^verbatim>\<open>StoppedDetails\<close> is the body of a \<^verbatim>\<open>stopped\<close> event; \<^verbatim>\<open>threadId\<close> and
  \<^verbatim>\<open>preserveFocusHint\<close> are optional in the protocol.
\<close>

record stopped_details =
  sd_reason :: string
  sd_threadId :: "nat option"
  sd_preserveFocusHint :: "bool option"

datatype request =
    Initialize string
  | Launch config
  | Attach config
  | ConfigurationDone
  | Threads
  | SetBreakpoints uri bool "source_raw list"

text \<open>
  A successful response, by its body: the capability set of \<^verbatim>\<open>initialize\<close> (the body
  itself is optional there), the \<^verbatim>\<open>threads\<close> array, the \<^verbatim>\<open>breakpoints\<close> array, or no
  body at all. \<open>has_body\<close> tells whether \<^verbatim>\<open>response.body\<close> is an object.
\<close>

datatype response =
    Body_capabilities "capability_set option"
  | Body_threads "raw_thread list"
  | Body_breakpoints "adapter_breakpoint list"
  | Body_none

fun has_body :: "response \<Rightarrow> bool" where
  "has_body (Body_capabilities c) = (c \<noteq> None)"
| "has_body (Body_threads rs) = True"
| "has_body (Body_breakpoints bs) = True"
| "has_body Body_none = False"

text \<open>
  Modelled from the spec: class \<^verbatim>\<open>DebugThread\<close> (\<^verbatim>\<open>./model/debug-thread\<close>), whose file is
  not part of the sources at hand. The spec gives a thread its adapter identity, a
  stopped flag and an optional stopped-reason payload, overwritten on every refresh:
  \<open>thread_update\<close> overwrites both fields, \<open>thread_clear\<close> drops the stop details, and
  a thread is stopped exactly while it carries stop details.
\<close>

record debug_thread =
  t_raw :: raw_thread
  t_stoppedDetails :: "stopped_details option"

definition stopped :: "debug_thread \<Rightarrow> bool" where
  "stopped t = (t_stoppedDetails t \<noteq> None)"

definition thread_update :: "raw_thread \<Rightarrow> stopped_details option \<Rightarrow> debug_thread \<Rightarrow> debug_thread" where
  "thread_update r d t = t\<lparr>t_raw := r, t_stoppedDetails := d\<rparr>"

definition thread_clear :: "debug_thread \<Rightarrow> debug_thread" where
  "thread_clear t = thread_update (t_raw t) None t"

definition new_DebugThread :: debug_thread where
  "new_DebugThread = \<lparr>t_raw = \<lparr>th_id = 0, th_name = []\<rparr>, t_stoppedDetails = None\<rparr>"

datatype DebugState = Inactive | Initializing | Running | Stopped

text \<open>The numeric value of the enum, compared by \<^verbatim>\<open>session.state > DebugState.Initializing\<close>.\<close>

fun state_value :: "DebugState \<Rightarrow> nat" where
  "state_value Inactive = 0"
| "state_value Initializing = 1"
| "state_value Running = 2"
| "state_value Stopped = 3"

datatype local_event = Exited error

subsection \<open>Session state\<close>

text \<open>
  The fields of \<^verbatim>\<open>DebugSession\<close> that the modelled methods read or write.
  \<^verbatim>\<open>DebugThread\<close> objects are shared between \<^verbatim>\<open>_threads\<close> and \<^verbatim>\<open>_currentThread\<close> and
  mutated in place, so they live in a store: \<open>objects\<close> maps an address to the
  object's contents, \<open>allocated\<close> is the next unused address, \<open>threads\<close> is the
  \<^verbatim>\<open>Map\<close> from thread id to address and \<open>currentThread\<close> is an address.
  \<open>disposed\<close> is \<^verbatim>\<open>connection.disposed\<close>. The remaining fields record what the
  session does to its surroundings: requests sent on the connection, events fired
  locally on it, messages shown, errors written to the console, resources announced
  by \<^verbatim>\<open>fireDidChangeBreakpoints\<close>, and whether the debounced refresh is armed.
\<close>

record session =
  session_id :: string
  configuration :: config
  disposed :: bool
  initialized :: bool
  capabilities :: capability_set
  threads :: "(nat \<times> nat) list"
  objects :: "nat \<Rightarrow> debug_thread"
  allocated :: nat
  currentThread :: "nat option"
  breakpoints :: "(uri \<times> debug_breakpoint list) list"
  sent :: "request list"
  fired :: "local_event list"
  shown :: "string list"
  console :: "error list"
  changed :: "uri list"
  scheduled :: bool

definition new_DebugSession :: "string \<Rightarrow> config \<Rightarrow> session" where
  "new_DebugSession i c =
     \<lparr>session_id = i, configuration = c, disposed = False, initialized = False,
      capabilities = [], threads = [], objects = (\<lambda>_. new_DebugThread), allocated = 0,
      currentThread = None, breakpoints = [], sent = [], fired = [], shown = [],
      console = [], changed = [], scheduled = False\<rparr>"

text \<open>
  The surroundings of a session: the adapter answers a request, possibly depending on
  the requests sent before it (\<open>Inl\<close> is a failure response); \<open>store\<close> is the content
  of the breakpoint store, per resource in the order of \<^verbatim>\<open>getUris\<close>; \<open>showMessage\<close>
  is the outcome of the message client (\<open>None\<close>: its promise resolves).
\<close>

record env =
  adapter :: "request list \<Rightarrow> request \<Rightarrow> error + response"
  store :: "(uri \<times> source_breakpoint list) list"
  showMessage :: "string \<Rightarrow> error option"

text \<open>
  Modelled from the spec: the breakpoint store contract \<^verbatim>\<open>findMarkers({uri?})\<close> and
  \<^verbatim>\<open>getUris()\<close> of \<^verbatim>\<open>BreakpointManager\<close>, whose file is not part of the sources at hand:
  the markers of one resource, or of all resources when no resource is given.
\<close>

definition findMarkers :: "(uri \<times> source_breakpoint list) list \<Rightarrow> uri option \<Rightarrow> source_breakpoint list" where
  "findMarkers st u =
     (case u of
        None \<Rightarrow> concat (map snd st)
      | Some u' \<Rightarrow> (case map_of st u' of None \<Rightarrow> [] | Some ms \<Rightarrow> ms))"

definition getUris :: "(uri \<times> source_breakpoint list) list \<Rightarrow> uri list" where
  "getUris st = map fst st"

text \<open>
  Modelled from the spec: \<^verbatim>\<open>DebugSessionConnection.sendRequest\<close>, whose file is not part of
  the sources at hand: on a disposed connection a request fails at once with
  \<^verbatim>\<open>ConnectionClosed\<close> and nothing is sent; otherwise the request goes out and the
  adapter's answer comes back.
\<close>

definition sendRequest :: "env \<Rightarrow> session \<Rightarrow> request \<Rightarrow> (error + response) \<times> session" where
  "sendRequest e s r =
     (if disposed s then (Inl (Error ''ConnectionClosed''), s)
      else (adapter e (sent s) r, s\<lparr>sent := sent s @ [r]\<rparr>))"


subsection \<open>Threads\<close>

text \<open>
  \<^verbatim>\<open>updateCurrentThread\<close>: the id of the current thread is kept unless the stop details
  name a thread (a truthy \<^verbatim>\<open>threadId\<close>) without \<^verbatim>\<open>preserveFocusHint\<close>; the thread of that
  id, or else the first thread of the map, becomes current.
\<close>

definition first_thread :: "session \<Rightarrow> nat option" where
  "first_thread s = (case threads s of [] \<Rightarrow> None | (i, a) # _ \<Rightarrow> Some a)"

definition updateCurrentThread :: "stopped_details option \<Rightarrow> session \<Rightarrow> session" where
  "updateCurrentThread stoppedDetails s =
     (let kept = (case currentThread s of
                    None \<Rightarrow> None
                  | Some a \<Rightarrow> Some (th_id (t_raw (objects s a))));
          threadId =
            (case stoppedDetails of
               None \<Rightarrow> kept
             | Some d \<Rightarrow>
                 if sd_preserveFocusHint d \<noteq> Some True \<and> sd_threadId d \<noteq> None
                      \<and> sd_threadId d \<noteq> Some 0
                 then sd_threadId d else kept)
      in s\<lparr>currentThread :=
             (case threadId of
                None \<Rightarrow> first_thread s
              | Some i \<Rightarrow>
                  (case map_of (threads s) i of
                     None \<Rightarrow> first_thread s
                   | Some a \<Rightarrow> Some a))\<rparr>)"

text \<open>
  The loop of \<^verbatim>\<open>doUpdateThreads\<close>: \<open>existing\<close> is the map before the refresh; a thread
  whose id it knows keeps its object, another id gets a new object; the contents are
  overwritten either way, with the stop details only for the thread they name.
\<close>

definition doUpdateThread ::
  "(nat \<times> nat) list \<Rightarrow> stopped_details option \<Rightarrow> raw_thread \<Rightarrow> session \<Rightarrow> session" where
  "doUpdateThread existing stoppedDetails r s =
     (let i = th_id r;
          details = (case stoppedDetails of
                       None \<Rightarrow> None
                     | Some d \<Rightarrow> if sd_threadId d = Some i then Some d else None)
      in case map_of existing i of
           Some a \<Rightarrow>
             s\<lparr>threads := map_set i a (threads s),
               objects := (objects s)(a := thread_update r details (objects s a))\<rparr>
         | None \<Rightarrow>
             s\<lparr>threads := map_set i (allocated s) (threads s),
               objects := (objects s)(allocated s := thread_update r details new_DebugThread),
               allocated := Suc (allocated s)\<rparr>)"

definition doUpdateThreads :: "raw_thread list \<Rightarrow> stopped_details option \<Rightarrow> session \<Rightarrow> session" where
  "doUpdateThreads rs stoppedDetails s =
     updateCurrentThread stoppedDetails
       (fold (doUpdateThread (threads s) stoppedDetails) rs (s\<lparr>threads := []\<rparr>))"

definition clear_object :: "nat \<Rightarrow> session \<Rightarrow> session" where
  "clear_object a s = s\<lparr>objects := (objects s)(a := thread_clear (objects s a))\<rparr>"

definition clearThreads :: "session \<Rightarrow> session" where
  "clearThreads s = updateCurrentThread None (fold clear_object (map snd (threads s)) s)"

definition clearThread :: "nat \<Rightarrow> session \<Rightarrow> session" where
  "clearThread threadId s =
     updateCurrentThread None
       (case map_of (threads s) threadId of None \<Rightarrow> s | Some a \<Rightarrow> clear_object a s)"

definition stoppedThreads :: "session \<Rightarrow> debug_thread list" where
  "stoppedThreads s = filter stopped (map (\<lambda>(i, a). objects s a) (threads s))"

definition state :: "session \<Rightarrow> DebugState" where
  "state s =
     (if disposed s then Inactive
      else if \<not> initialized s then Initializing
      else case currentThread s of
             Some a \<Rightarrow> if stopped (objects s a) then Stopped else Running
           | None \<Rightarrow> if stoppedThreads s \<noteq> [] then Stopped else Running)"

text \<open>
  \<^verbatim>\<open>updateThreads\<close>. \<open>refresh_result\<close> is the \<^verbatim>\<open>try\<close> block once the answer to the
  \<^verbatim>\<open>threads\<close> request is there. It fails when the request failed. It also fails on an
  answer that is not a thread list, which the protocol types exclude: without a body,
  \<^verbatim>\<open>response.body.threads\<close> throws before \<^verbatim>\<open>doUpdateThreads\<close> is entered and the session
  is as it was; with a body that has no \<^verbatim>\<open>threads\<close> array, \<^verbatim>\<open>doUpdateThreads\<close> has
  already replaced \<^verbatim>\<open>_threads\<close> by an empty map when its loop throws, and
  \<^verbatim>\<open>updateCurrentThread\<close> does not run, so the current thread stays what it was.
  \<open>catch_log\<close> is the \<^verbatim>\<open>catch\<close>: the error goes to the console and the promise
  resolves. The first component of a result is the rejection of the returned promise,
  if any. In \<open>updateThreads\<close> the round trip to the adapter is one step; the chaining
  on \<^verbatim>\<open>pendingThreads\<close> is modelled in the next subsection.
\<close>

definition refresh_result ::
  "error + response \<Rightarrow> stopped_details option \<Rightarrow> session \<Rightarrow> error option \<times> session" where
  "refresh_result r stoppedDetails s =
     (case r of
        Inl err \<Rightarrow> (Some err, s)
      | Inr (Body_threads rs) \<Rightarrow> (None, doUpdateThreads rs stoppedDetails s)
      | Inr other \<Rightarrow>
          if has_body other then (Some (Error ''TypeError''), s\<lparr>threads := []\<rparr>)
          else (Some (Error ''TypeError''), s))"

definition catch_log :: "error option \<times> session \<Rightarrow> error option \<times> session" where
  "catch_log r =
     (case r of
        (None, s) \<Rightarrow> (None, s)
      | (Some err, s) \<Rightarrow> (None, s\<lparr>console := console s @ [err]\<rparr>))"

definition updateThreads :: "env \<Rightarrow> session \<Rightarrow> stopped_details option \<Rightarrow> error option \<times> session" where
  "updateThreads e s stoppedDetails =
     (case sendRequest e s Threads of
        (r, s') \<Rightarrow> catch_log (refresh_result r stoppedDetails s'))"

subsection \<open>The chain of pending refreshes\<close>

text \<open>
  \<^verbatim>\<open>this.pendingThreads = this.pendingThreads.then(async () => ...)\<close>: every call of
  \<^verbatim>\<open>updateThreads\<close> appends its callback to one promise chain. A callback of a chain
  starts when the promise before it has settled, that is when the callback before it
  has run to its end. \<open>c_waiting\<close> are the callbacks not yet started, \<open>c_inflight\<close>
  those that have sent \<^verbatim>\<open>threads\<close> and wait for the answer, each with the stop details
  of its call; \<open>c_called\<close> and \<open>c_done\<close> record the calls made and the callbacks
  finished. \<open>Call\<close> is a call of \<^verbatim>\<open>updateThreads\<close>, \<open>Turn\<close> lets the chain advance, and
  \<open>Reply\<close> is the arrival of the adapter's answer.
\<close>

record chain =
  c_session :: session
  c_waiting :: "stopped_details option list"
  c_inflight :: "stopped_details option list"
  c_called :: "stopped_details option list"
  c_done :: "stopped_details option list"

datatype chain_action = Call "stopped_details option" | Turn | Reply "error + response"

definition idle :: "session \<Rightarrow> chain" where
  "idle s = \<lparr>c_session = s, c_waiting = [], c_inflight = [], c_called = [], c_done = []\<rparr>"

fun chain_step :: "chain_action \<Rightarrow> chain \<Rightarrow> chain" where
  "chain_step (Call d) c = c\<lparr>c_waiting := c_waiting c @ [d], c_called := c_called c @ [d]\<rparr>"
| "chain_step Turn c =
     (case c_waiting c of
        [] \<Rightarrow> c
      | d # rest \<Rightarrow>
          if c_inflight c \<noteq> [] then c
          else if disposed (c_session c)
          then c\<lparr>c_session := snd (catch_log (refresh_result (Inl (Error ''ConnectionClosed'')) d
                                               (c_session c))),
                 c_waiting := rest, c_done := c_done c @ [d]\<rparr>
          else c\<lparr>c_session := (c_session c)\<lparr>sent := sent (c_session c) @ [Threads]\<rparr>,
                 c_waiting := rest, c_inflight := c_inflight c @ [d]\<rparr>)"
| "chain_step (Reply r) c =
     (case c_inflight c of
        [] \<Rightarrow> c
      | d # rest \<Rightarrow>
          c\<lparr>c_session := snd (catch_log (refresh_result r d (c_session c))),
            c_inflight := rest, c_done := c_done c @ [d]\<rparr>)"

definition chain_run :: "chain_action list \<Rightarrow> chain \<Rightarrow> chain" where
  "chain_run acts c = fold chain_step acts c"

subsection \<open>Capabilities\<close>

text \<open>
  \<^verbatim>\<open>Object.assign(target, source)\<close> writes every property of the source into the
  target, in the source's order.
\<close>

definition object_assign :: "('k \<times> 'v) list \<Rightarrow> ('k \<times> 'v) list \<Rightarrow> ('k \<times> 'v) list" where
  "object_assign target source = fold (\<lambda>(k, v). map_set k v) source target"

definition updateCapabilities :: "capability_set \<Rightarrow> session \<Rightarrow> session" where
  "updateCapabilities c s = s\<lparr>capabilities := object_assign (capabilities s) c\<rparr>"

definition capability :: "session \<Rightarrow> string \<Rightarrow> bool" where
  "capability s k = (case map_of (capabilities s) k of None \<Rightarrow> False | Some v \<Rightarrow> truthy v)"

subsection \<open>Breakpoints of the session\<close>

text \<open>
  \<^verbatim>\<open>response.body.breakpoints.map((raw, index) => enabled[index].update({ raw }))\<close>:
  the objects of \<^verbatim>\<open>enabled\<close> are objects of \<^verbatim>\<open>all\<close>, so the answers reach the enabled
  members of \<^verbatim>\<open>all\<close>, in order. An answer longer than \<^verbatim>\<open>enabled\<close> makes
  \<^verbatim>\<open>enabled[index]\<close> undefined and the call a \<^verbatim>\<open>TypeError\<close>; \<open>updateBreakpoints_loop\<close>
  checks that before.
\<close>

fun apply_raws :: "adapter_breakpoint list \<Rightarrow> debug_breakpoint list \<Rightarrow> debug_breakpoint list" where
  "apply_raws rs [] = []"
| "apply_raws [] (b # bs) = b # bs"
| "apply_raws (r # rs) (b # bs) =
     (if enabled b then b\<lparr>raw := Some r\<rparr> # apply_raws rs bs
      else b # apply_raws (r # rs) bs)"

text \<open>
  \<^verbatim>\<open>updateBreakpoints\<close>, one round of its loop per affected resource. The request is
  built from the enabled members of \<^verbatim>\<open>all\<close>; \<^verbatim>\<open>dedupBreakpoints\<close> runs after the answer
  has been applied. A failed request rejects the promise and ends the loop. The
  \<^verbatim>\<open>DebugSource\<close> of a resource stands for its URI here.
\<close>

fun updateBreakpoints_loop :: "env \<Rightarrow> bool \<Rightarrow> uri list \<Rightarrow> session \<Rightarrow> error option \<times> session" where
  "updateBreakpoints_loop e sourceModified [] s = (None, s)"
| "updateBreakpoints_loop e sourceModified (affectedUri # rest) s =
     (let all = map new_DebugBreakpoint (findMarkers (store e) (Some affectedUri));
          enabled' = filter enabled all
      in case sendRequest e s
                (SetBreakpoints affectedUri sourceModified (map (\<lambda>b. sb_raw (origin b)) enabled')) of
           (Inl err, s') \<Rightarrow> (Some err, s')
         | (Inr (Body_breakpoints rs), s') \<Rightarrow>
             if length enabled' < length rs then (Some (Error ''TypeError''), s')
             else updateBreakpoints_loop e sourceModified rest
                    (s'\<lparr>breakpoints :=
                          map_set affectedUri (dedupBreakpoints (apply_raws rs all)) (breakpoints s'),
                        changed := changed s' @ [affectedUri]\<rparr>)
         | (Inr _, s') \<Rightarrow> (Some (Error ''TypeError''), s'))"

definition getAffectedUris :: "env \<Rightarrow> uri option \<Rightarrow> uri list" where
  "getAffectedUris e u = (case u of Some u' \<Rightarrow> [u'] | None \<Rightarrow> getUris (store e))"

definition updateBreakpoints :: "env \<Rightarrow> session \<Rightarrow> uri option \<Rightarrow> bool \<Rightarrow> error option \<times> session" where
  "updateBreakpoints e s u sourceModified =
     updateBreakpoints_loop e sourceModified (getAffectedUris e u) s"

definition getBreakpoints :: "session \<Rightarrow> uri option \<Rightarrow> debug_breakpoint list" where
  "getBreakpoints s u =
     (case u of
        Some u' \<Rightarrow> (case map_of (breakpoints s) u' of None \<Rightarrow> [] | Some bs \<Rightarrow> bs)
      | None \<Rightarrow> concat (map snd (breakpoints s)))"

definition clearBreakpoints :: "session \<Rightarrow> session" where
  "clearBreakpoints s = s\<lparr>breakpoints := [], changed := changed s @ map fst (breakpoints s)\<rparr>"


subsection \<open>Life cycle\<close>

text \<open>
  \<^verbatim>\<open>initialize\<close> stores \<^verbatim>\<open>response.body || {}\<close>; an answer of another shape, which the
  protocol types exclude, leaves an empty capability set here.
\<close>

definition initialize :: "env \<Rightarrow> session \<Rightarrow> error option \<times> session" where
  "initialize e s =
     (case sendRequest e s (Initialize (cfg_type (configuration s))) of
        (Inl err, s') \<Rightarrow> (Some err, s')
      | (Inr (Body_capabilities body), s') \<Rightarrow>
          (None, s'\<lparr>capabilities := (case body of None \<Rightarrow> [] | Some c \<Rightarrow> c)\<rparr>)
      | (Inr _, s') \<Rightarrow> (None, s'\<lparr>capabilities := []\<rparr>))"

text \<open>
  \<^verbatim>\<open>launchOrAttach\<close>: when the request fails, the \<^verbatim>\<open>catch\<close> fires \<^verbatim>\<open>exited\<close> on the
  session's own connection, shows the message (the reason's, or the default text when
  that is empty), and throws the reason again. A message client whose promise rejects
  would replace the reason by its own error.
\<close>

definition launchOrAttach :: "env \<Rightarrow> session \<Rightarrow> error option \<times> session" where
  "launchOrAttach e s =
     (case sendRequest e s
             (if cfg_request (configuration s) = ''attach''
              then Attach (configuration s) else Launch (configuration s)) of
        (Inr _, s') \<Rightarrow> (None, s')
      | (Inl reason, s') \<Rightarrow>
          (let text = (if message reason \<noteq> [] then message reason
                       else ''Debug session initialization failed. See console for details.'');
               s'' = s'\<lparr>fired := fired s' @ [Exited reason], shown := shown s' @ [text]\<rparr>
           in case showMessage e text of
                Some err \<Rightarrow> (Some err, s'')
              | None \<Rightarrow> (Some reason, s'')))"

definition start :: "env \<Rightarrow> session \<Rightarrow> error option \<times> session" where
  "start e s =
     (case initialize e s of
        (Some err, s') \<Rightarrow> (Some err, s')
      | (None, s') \<Rightarrow> launchOrAttach e s')"

definition configure :: "env \<Rightarrow> session \<Rightarrow> error option \<times> session" where
  "configure e s =
     (case updateBreakpoints e s None False of
        (Some err, s1) \<Rightarrow> (Some err, s1)
      | (None, s1) \<Rightarrow>
          if capability s1 ''supportsConfigurationDoneRequest''
          then (case sendRequest e s1 ConfigurationDone of
                  (Inl err, s2) \<Rightarrow> (Some err, s2)
                | (Inr _, s2) \<Rightarrow> updateThreads e (s2\<lparr>initialized := True\<rparr>) None)
          else updateThreads e (s1\<lparr>initialized := True\<rparr>) None)"

text \<open>
  \<^verbatim>\<open>dispose\<close>: the connection is disposed, the breakpoints are cleared and the thread
  map is emptied (\<^verbatim>\<open>doUpdateThreads([])\<close>).
\<close>

definition dispose :: "session \<Rightarrow> session" where
  "dispose s = doUpdateThreads [] None (clearBreakpoints (s\<lparr>disposed := True\<rparr>))"

subsection \<open>Events\<close>

text \<open>
  The listeners registered by the constructor. An event handler runs to its end,
  adapter round trips included, before the next event is looked at. A \<^verbatim>\<open>thread\<close>
  event with reason \<^verbatim>\<open>started\<close> arms the debounced refresh, which runs when the
  debounce time has elapsed (\<open>DebounceElapsed\<close>). \<open>MarkersChanged\<close> is the change
  notification of the breakpoint store. Stack frames are outside this model:
  \<^verbatim>\<open>updateFrames\<close> only fills the frame cache of the current thread.
\<close>

datatype event =
    InitializedEvent
  | ContinuedEvent "bool option" nat
  | StoppedEvent stopped_details
  | ThreadEvent string nat
  | CapabilitiesEvent capability_set
  | DebounceElapsed
  | MarkersChanged uri

fun handle :: "env \<Rightarrow> session \<Rightarrow> event \<Rightarrow> session" where
  "handle e s InitializedEvent = snd (configure e s)"
| "handle e s (ContinuedEvent allThreadsContinued threadId) =
     (if allThreadsContinued \<noteq> Some False then clearThreads s else clearThread threadId s)"
| "handle e s (StoppedEvent body) = snd (updateThreads e s (Some body))"
| "handle e s (ThreadEvent reason threadId) =
     (if reason = ''started'' then s\<lparr>scheduled := True\<rparr>
      else if reason = ''exited'' then clearThread threadId s
      else s)"
| "handle e s (CapabilitiesEvent c) = updateCapabilities c s"
| "handle e s DebounceElapsed =
     (if scheduled s then snd (updateThreads e (s\<lparr>scheduled := False\<rparr>) None) else s)"
| "handle e s (MarkersChanged u) = snd (updateBreakpoints e s (Some u) True)"

text \<open>
  The sessions that can arise: a new session, and what any event makes of one, in
  whatever surroundings; the adapter, the store and the message client may differ from
  one event to the next.
\<close>

inductive reachable :: "session \<Rightarrow> bool" where
  reachable_new: "reachable (new_DebugSession i c)"
| reachable_start: "reachable s \<Longrightarrow> reachable (snd (start e s))"
| reachable_handle: "reachable s \<Longrightarrow> reachable (handle e s ev)"
| reachable_dispose: "reachable s \<Longrightarrow> reachable (dispose s)"


section \<open>The session manager\<close>

text \<open>
  The services the manager calls: the debug service resolves a configuration and
  creates a session id (its answer may depend on the ids it gave before), and the
  variable resolver substitutes variables in a configuration. Each may fail.
\<close>

record manager_env =
  resolveDebugConfiguration :: "config \<Rightarrow> error + config"
  variableResolver_resolve :: "config \<Rightarrow> error + config"
  debugService_create :: "string list \<Rightarrow> config \<Rightarrow> error + string"

text \<open>
  The fields of \<^verbatim>\<open>DebugSessionManager\<close>: the \<^verbatim>\<open>Map\<close>s \<^verbatim>\<open>configurationIds\<close> and
  \<^verbatim>\<open>_sessions\<close>, the current session, and what the manager tells its surroundings:
  the sessions announced as created and as destroyed, and the ids given to
  \<^verbatim>\<open>debugService.stop\<close>. A session held by the manager is its content at the time the
  manager looks at it.
\<close>

record manager =
  configurationIds :: "(string \<times> nat) list"
  sessions_map :: "(string \<times> session) list"
  currentSession :: "session option"
  didCreate :: "session list"
  didDestroy :: "session list"
  stopped_ids :: "string list"

definition new_DebugSessionManager :: manager where
  "new_DebugSessionManager =
     \<lparr>configurationIds = [], sessions_map = [], currentSession = None,
      didCreate = [], didDestroy = [], stopped_ids = []\<rparr>"

definition resolveConfiguration :: "manager_env \<Rightarrow> manager \<Rightarrow> config \<Rightarrow> (error + config) \<times> manager" where
  "resolveConfiguration me m c =
     (if cfg_resovled c then (Inr c, m)
      else case resolveDebugConfiguration me c of
             Inl err \<Rightarrow> (Inl err, m)
           | Inr resolvedConfiguration \<Rightarrow>
               (let configurationId =
                      (case map_of (configurationIds m) (cfg_name c) of
                         Some n \<Rightarrow> n + 1
                       | None \<Rightarrow> 0)
                in (variableResolver_resolve me
                      (resolvedConfiguration\<lparr>cfg_resovled := True,
                                             cfg_configurationId := Some configurationId\<rparr>),
                    m\<lparr>configurationIds :=
                        map_set (cfg_name c) configurationId (configurationIds m)\<rparr>)))"

text \<open>
  \<^verbatim>\<open>doStart\<close> builds the session with the default factory, registers it and announces
  it. \<^verbatim>\<open>session.start()\<close> is not awaited: what the session does from there on is the
  subject of the previous section.
\<close>

definition doStart :: "manager \<Rightarrow> string \<Rightarrow> config \<Rightarrow> session \<times> manager" where
  "doStart m sessionId c =
     (let session = new_DebugSession sessionId c
      in (session, m\<lparr>sessions_map := map_set sessionId session (sessions_map m),
                     didCreate := didCreate m @ [session]\<rparr>))"

definition manager_start :: "manager_env \<Rightarrow> manager \<Rightarrow> config \<Rightarrow> (error + session) \<times> manager" where
  "manager_start me m c =
     (case resolveConfiguration me m c of
        (Inl err, m1) \<Rightarrow> (Inl err, m1)
      | (Inr resolvedConfiguration, m1) \<Rightarrow>
          (case debugService_create me (map session_id (didCreate m1)) resolvedConfiguration of
             Inl err \<Rightarrow> (Inl err, m1)
           | Inr sessionId \<Rightarrow>
               (case doStart m1 sessionId resolvedConfiguration of
                  (session, m2) \<Rightarrow> (Inr session, m2))))"

definition sessions :: "manager \<Rightarrow> session list" where
  "sessions m =
     filter (\<lambda>s. state_value Inactive < state_value (state s)) (map snd (sessions_map m))"

definition updateCurrentSession :: "session option \<Rightarrow> manager \<Rightarrow> manager" where
  "updateCurrentSession session m =
     m\<lparr>currentSession :=
         (case session of
            Some s \<Rightarrow> Some s
          | None \<Rightarrow> (case sessions m of [] \<Rightarrow> None | s # _ \<Rightarrow> Some s))\<rparr>"

definition remove :: "string \<Rightarrow> manager \<Rightarrow> manager" where
  "remove sessionId m =
     (let m' = m\<lparr>sessions_map := filter (\<lambda>(k, s). k \<noteq> sessionId) (sessions_map m)\<rparr>
      in case currentSession m' of
           None \<Rightarrow> m'
         | Some cur \<Rightarrow> if session_id cur = sessionId then updateCurrentSession None m' else m')"

text \<open>
  \<^verbatim>\<open>doDestroy\<close>. While the session disposes, its thread map is emptied and the session
  announces a change; the listener that \<^verbatim>\<open>doStart\<close> registered on \<^verbatim>\<open>onDidChange\<close> then
  makes the session current, before \<^verbatim>\<open>remove\<close> runs.
\<close>

definition doDestroy :: "session \<Rightarrow> manager \<Rightarrow> manager" where
  "doDestroy session m =
     (let m1 = m\<lparr>stopped_ids := stopped_ids m @ [session_id session]\<rparr>;
          session' = dispose session;
          m2 = updateCurrentSession (Some session') m1;
          m3 = remove (session_id session) m2
      in m3\<lparr>didDestroy := didDestroy m3 @ [session']\<rparr>)"

text \<open>\<^verbatim>\<open>destroy(sessionId?)\<close>: an absent or empty id destroys every session.\<close>

definition destroy :: "string option \<Rightarrow> manager \<Rightarrow> manager" where
  "destroy sessionId m =
     (case sessionId of
        None \<Rightarrow> fold doDestroy (map snd (sessions_map m)) m
      | Some i \<Rightarrow>
          if i = [] then fold doDestroy (map snd (sessions_map m)) m
          else (case map_of (sessions_map m) i of None \<Rightarrow> m | Some s \<Rightarrow> doDestroy s m))"

text \<open>
  \<^verbatim>\<open>getBreakpoints(arg?, arg2?)\<close> of the manager: the first argument is a URI, a session
  or absent.
\<close>

datatype arg = Arg_undefined | Arg_uri uri | Arg_session session

definition manager_getBreakpoints ::
  "(uri \<times> source_breakpoint list) list \<Rightarrow> manager \<Rightarrow> arg \<Rightarrow> session option \<Rightarrow> debug_breakpoint list" where
  "manager_getBreakpoints st m a arg2 =
     (let u = (case a of Arg_uri u' \<Rightarrow> Some u' | _ \<Rightarrow> None);
          session = (case a of
                       Arg_session s \<Rightarrow> Some s
                     | _ \<Rightarrow> (case arg2 of Some s \<Rightarrow> Some s | None \<Rightarrow> currentSession m));
          markers = map new_DebugBreakpoint (findMarkers st u)
      in case session of
           None \<Rightarrow> markers
         | Some s \<Rightarrow>
             if state_value Initializing < state_value (state s) then getBreakpoints s None
             else markers)"

text \<open>A run of the manager: starts and destroys, in order.\<close>

datatype manager_op = Start config | Destroy "string option"

fun manager_step :: "manager_env \<Rightarrow> manager_op \<Rightarrow> manager \<Rightarrow> manager" where
  "manager_step me (Start c) m = snd (manager_start me m c)"
| "manager_step me (Destroy i) m = destroy i m"

definition manager_run :: "manager_env \<Rightarrow> manager_op list \<Rightarrow> manager \<Rightarrow> manager" where
  "manager_run me ops m = fold (manager_step me) ops m"

fun started :: "manager_op list \<Rightarrow> config list" where
  "started [] = []"
| "started (Start c # ops) = c # started ops"
| "started (Destroy i # ops) = started ops"


section \<open>Notions used in the statements and proofs\<close>

subsection \<open>Deduplication\<close>

text \<open>
  The breakpoints of a collection that show on one line, and the one of them that
  \<^verbatim>\<open>dedupBreakpoints\<close> keeps: the last unshifted one in iteration order, or the first
  of them all when none is unshifted.
\<close>

definition on_line :: "nat \<Rightarrow> debug_breakpoint list \<Rightarrow> debug_breakpoint list" where
  "on_line l xs = filter (\<lambda>b. line b = l) xs"

definition primary_of :: "debug_breakpoint list \<Rightarrow> debug_breakpoint" where
  "primary_of g = (case filter unshifted g of [] \<Rightarrow> hd g | u # us \<Rightarrow> last (u # us))"

definition entry_ok :: "debug_breakpoint list \<Rightarrow> nat \<Rightarrow> debug_breakpoint \<Rightarrow> bool" where
  "entry_ok xs k p \<longleftrightarrow>
     line p = k \<and> origins p \<noteq> [] \<and> on_line k xs \<noteq> [] \<and>
     mset (origins p) = mset (concat (map origins (on_line k xs))) \<and>
     raw p = raw (primary_of (on_line k xs)) \<and>
     origin p = origin (primary_of (on_line k xs))"

definition dedup_inv :: "debug_breakpoint list \<Rightarrow> (nat \<times> debug_breakpoint) list \<Rightarrow> bool" where
  "dedup_inv xs kvs \<longleftrightarrow>
     distinct (map fst kvs) \<and> fst ` set kvs = line ` set xs \<and>
     (\<forall>k p. map_of kvs k = Some p \<longrightarrow> entry_ok xs k p)"

subsection \<open>Sessions\<close>

text \<open>
  There is a current thread unless the thread map is empty, and while the map is not
  empty the current thread is one of its threads. (A \<^verbatim>\<open>threads\<close> answer without a
  \<^verbatim>\<open>threads\<close> array empties the map and leaves the current thread.)
\<close>

definition thread_inv :: "session \<Rightarrow> bool" where
  "thread_inv s \<longleftrightarrow>
     (currentThread s = None \<longrightarrow> threads s = []) \<and>
     (\<forall>a. currentThread s = Some a \<longrightarrow> threads s = [] \<or> a \<in> snd ` set (threads s))"

definition same_threads :: "session \<Rightarrow> session \<Rightarrow> bool" where
  "same_threads s s' \<longleftrightarrow>
     threads s' = threads s \<and> currentThread s' = currentThread s \<and>
     objects s' = objects s \<and> allocated s' = allocated s"

text \<open>The \<^verbatim>\<open>setBreakpoints\<close> request for a resource: its enabled declarations, in order.\<close>

definition resync_request :: "env \<Rightarrow> bool \<Rightarrow> uri \<Rightarrow> request" where
  "resync_request e m u =
     SetBreakpoints u m (map sb_raw (filter sb_enabled (findMarkers (store e) (Some u))))"

definition launch_request :: "session \<Rightarrow> request" where
  "launch_request s =
     (if cfg_request (configuration s) = ''attach''
      then Attach (configuration s) else Launch (configuration s))"

definition failure_text :: "error \<Rightarrow> string" where
  "failure_text reason =
     (if message reason \<noteq> [] then message reason
      else ''Debug session initialization failed. See console for details.'')"

definition chain_inv :: "chain \<Rightarrow> bool" where
  "chain_inv c \<longleftrightarrow>
     length (c_inflight c) \<le> 1 \<and> c_called c = c_done c @ c_inflight c @ c_waiting c"

subsection \<open>Manager\<close>

definition next_id :: "manager \<Rightarrow> string \<Rightarrow> nat" where
  "next_id m x = (case map_of (configurationIds m) x of Some n \<Rightarrow> n + 1 | None \<Rightarrow> 0)"

definition ids_created :: "manager \<Rightarrow> nat option list" where
  "ids_created m = map (\<lambda>s. cfg_configurationId (configuration s)) (didCreate m)"

section \<open>Concrete sessions and surroundings\<close>

definition decl :: "nat \<Rightarrow> bool \<Rightarrow> source_breakpoint" where
  "decl l en =
     \<lparr>sb_uri = ''file:///a.ts'', sb_enabled = en, sb_raw = \<lparr>src_line = l, src_column = None\<rparr>\<rparr>"

definition line_at :: "nat \<Rightarrow> source_raw" where
  "line_at l = \<lparr>src_line = l, src_column = None\<rparr>"

text \<open>A breakpoint requested on one line and reported by the adapter on another.\<close>

definition answered :: "nat \<Rightarrow> nat \<Rightarrow> debug_breakpoint" where
  "answered requested reported =
     \<lparr>raw = Some \<lparr>ab_verified = True, ab_line = Some reported\<rparr>,
      origins = [decl requested True]\<rparr>"

definition plain_config :: config where
  "plain_config =
     \<lparr>cfg_type = ''node'', cfg_request = ''launch'', cfg_name = ''X'',
      cfg_resovled = False, cfg_configurationId = None\<rparr>"

text \<open>An adapter with the threads 1 and 2, and an empty breakpoint store.\<close>

definition two_threads :: env where
  "two_threads =
     \<lparr>adapter = (\<lambda>log r. case r of
          Threads \<Rightarrow> Inr (Body_threads [\<lparr>th_id = 1, th_name = ''main''\<rparr>,
                                        \<lparr>th_id = 2, th_name = ''worker''\<rparr>])
        | SetBreakpoints u m bs \<Rightarrow> Inr (Body_breakpoints [])
        | _ \<Rightarrow> Inr Body_none),
      store = [], showMessage = (\<lambda>t. None)\<rparr>"

definition configured :: session where
  "configured = handle two_threads (new_DebugSession ''s1'' plain_config) InitializedEvent"

definition stop_of :: "nat \<Rightarrow> bool option \<Rightarrow> stopped_details" where
  "stop_of i hint =
     \<lparr>sd_reason = ''breakpoint'', sd_threadId = Some i, sd_preserveFocusHint = hint\<rparr>"

text \<open>An adapter that verifies every breakpoint where it was requested.\<close>

definition verifying :: "request list \<Rightarrow> request \<Rightarrow> error + response" where
  "verifying log r =
     (case r of
        SetBreakpoints u m bs \<Rightarrow>
          Inr (Body_breakpoints (map (\<lambda>b. \<lparr>ab_verified = True, ab_line = Some (src_line b)\<rparr>) bs))
      | Threads \<Rightarrow> Inr (Body_threads [\<lparr>th_id = 1, th_name = ''main''\<rparr>])
      | _ \<Rightarrow> Inr Body_none)"

definition twice_on_5 :: env where
  "twice_on_5 =
     \<lparr>adapter = verifying,
      store = [(''file:///a.ts'', [decl 5 True, decl 5 True])],
      showMessage = (\<lambda>t. None)\<rparr>"

definition three_lines :: env where
  "three_lines =
     \<lparr>adapter = verifying,
      store = [(''file:///a.ts'', [decl 3 True, decl 4 False, decl 9 True]),
               (''file:///b.ts'', [decl 1 True])],
      showMessage = (\<lambda>t. None)\<rparr>"

definition supporting :: "bool \<Rightarrow> session" where
  "supporting b =
     updateCapabilities [(''supportsConfigurationDoneRequest'', JBool b)]
       (new_DebugSession ''s1'' plain_config)"

definition refusing :: env where
  "refusing =
     \<lparr>adapter = (\<lambda>log r. case r of
          Initialize t \<Rightarrow> Inr (Body_capabilities None)
        | Launch c \<Rightarrow> Inl (Error ''cannot launch'')
        | Attach c \<Rightarrow> Inl (Error ''cannot attach'')
        | _ \<Rightarrow> Inr Body_none),
      store = [], showMessage = (\<lambda>t. None)\<rparr>"

text \<open>
  An adapter that answers the first two \<^verbatim>\<open>threads\<close> requests with the threads 1 and 2
  and every later one with a body that has no \<^verbatim>\<open>threads\<close> array.
\<close>

definition forgetful :: env where
  "forgetful =
     \<lparr>adapter = (\<lambda>log r. case r of
          Threads \<Rightarrow>
            if length (filter (\<lambda>q. q = Threads) log) < 2
            then Inr (Body_threads [\<lparr>th_id = 1, th_name = ''main''\<rparr>,
                                    \<lparr>th_id = 2, th_name = ''worker''\<rparr>])
            else Inr (Body_breakpoints [])
        | SetBreakpoints u m bs \<Rightarrow> Inr (Body_breakpoints [])
        | _ \<Rightarrow> Inr Body_none),
      store = [], showMessage = (\<lambda>t. None)\<rparr>"

text \<open>The refusing adapter, with a message client whose promise rejects.\<close>

definition speechless :: env where
  "speechless = refusing\<lparr>showMessage := (\<lambda>t. Some (Error ''no ui''))\<rparr>"

definition failing :: env where
  "failing =
     \<lparr>adapter = (\<lambda>log r. Inl (Error ''timeout'')), store = [], showMessage = (\<lambda>t. None)\<rparr>"

definition services :: manager_env where
  "services =
     \<lparr>resolveDebugConfiguration = (\<lambda>c. Inr c),
      variableResolver_resolve = (\<lambda>c. Inr c),
      debugService_create = (\<lambda>ids c. Inr (replicate (Suc (length ids)) CHR ''s''))\<rparr>"

text \<open>A running session with breakpoints in two resources.\<close>

definition running_with :: session where
  "running_with =
     (new_DebugSession ''s1'' plain_config)
       \<lparr>initialized := True,
        breakpoints := [(''file:///a.ts'', [answered 3 3]),
                        (''file:///b.ts'', [answered 1 1])]\<rparr>"


section \<open>Insertion-ordered maps\<close>

lemma map_of_map_set: "map_of (map_set k v kvs) = (map_of kvs)(k \<mapsto> v)"
  by (induction kvs) (auto simp: fun_eq_iff)

lemma keys_map_set:
  "map fst (map_set k v kvs) = (if k \<in> fst ` set kvs then map fst kvs else map fst kvs @ [k])"
  by (induction kvs) force+

lemma key_set_map_set: "fst ` set (map_set k v kvs) = insert k (fst ` set kvs)"
proof -
  have "set (map fst (map_set k v kvs)) = insert k (set (map fst kvs))"
    unfolding keys_map_set by auto
  then show ?thesis by simp
qed

lemma distinct_map_set: "distinct (map fst kvs) \<Longrightarrow> distinct (map fst (map_set k v kvs))"
  by (simp add: keys_map_set)

lemma map_set_fresh: "k \<notin> fst ` set kvs \<Longrightarrow> map_set k v kvs = kvs @ [(k, v)]"
  by (induction kvs) auto

lemma map_of_mem:
  assumes d: "distinct (map fst kvs)" and p: "p \<in> set (map snd kvs)"
  shows "\<exists>k. map_of kvs k = Some p"
proof -
  from p obtain k where "(k, p) \<in> set kvs" by auto
  with d have "map_of kvs k = Some p" by (rule map_of_is_SomeI)
  then show ?thesis ..
qed

lemma map_of_mem_snd: "map_of kvs k = Some a \<Longrightarrow> a \<in> snd ` set kvs"
  by (metis map_of_SomeD image_eqI snd_conv)

section \<open>Deduplication of breakpoints\<close>

lemma line_push: "origins p \<noteq> [] \<Longrightarrow> line (p\<lparr>origins := origins p @ ys\<rparr>) = line p"
  by (simp add: line_def origin_def split: option.splits)

lemma origin_push: "origins p \<noteq> [] \<Longrightarrow> origin (p\<lparr>origins := origins p @ ys\<rparr>) = origin p"
  by (simp add: origin_def)

lemma on_line_snoc:
  "on_line l (xs @ [x]) = (if line x = l then on_line l xs @ [x] else on_line l xs)"
  by (simp add: on_line_def)

lemma on_line_empty: "l \<notin> line ` set xs \<Longrightarrow> on_line l xs = []"
  by (auto simp: on_line_def filter_empty_conv)

lemma primary_of_snoc:
  "primary_of (g @ [x]) = (if unshifted x \<or> g = [] then x else primary_of g)"
  by (cases "filter unshifted g") (auto simp: primary_of_def)

lemma primary_of_single: "primary_of [x] = x"
  by (simp add: primary_of_def)

lemma entry_ok_other: "entry_ok xs k p \<Longrightarrow> line x \<noteq> k \<Longrightarrow> entry_ok (xs @ [x]) k p"
  by (simp add: entry_ok_def on_line_snoc)

lemma dedup_inv_set:
  assumes inv: "dedup_inv xs kvs" and new: "entry_ok (xs @ [x]) (line x) q"
  shows "dedup_inv (xs @ [x]) (map_set (line x) q kvs)"
proof -
  from inv have d: "distinct (map fst kvs)" and k: "fst ` set kvs = line ` set xs"
    and e: "\<And>k p. map_of kvs k = Some p \<Longrightarrow> entry_ok xs k p"
    by (auto simp: dedup_inv_def)
  have "entry_ok (xs @ [x]) k p" if "map_of (map_set (line x) q kvs) k = Some p" for k p
  proof (cases "k = line x")
    case True
    with that new show ?thesis by (simp add: map_of_map_set)
  next
    case False
    with that have "map_of kvs k = Some p" by (simp add: map_of_map_set)
    with e False show ?thesis by (simp add: entry_ok_other)
  qed
  moreover have "fst ` set (map_set (line x) q kvs) = line ` set (xs @ [x])"
    using k by (simp add: key_set_map_set)
  ultimately show ?thesis
    using d unfolding dedup_inv_def by (simp add: distinct_map_set)
qed

lemma dedup_inv_step:
  assumes inv: "dedup_inv xs kvs" and wf: "origins x \<noteq> []"
  shows "dedup_inv (xs @ [x]) (dedup_step x kvs)"
proof (cases "map_of kvs (line x)")
  case None
  then have "line x \<notin> fst ` set kvs" by (simp add: map_of_eq_None_iff)
  with inv have "on_line (line x) xs = []"
    by (simp add: dedup_inv_def on_line_empty)
  then have "entry_ok (xs @ [x]) (line x) x"
    using wf by (simp add: entry_ok_def on_line_snoc primary_of_single)
  moreover have "dedup_step x kvs = map_set (line x) x kvs"
    using None by (simp add: dedup_step_def)
  ultimately show ?thesis using inv by (simp add: dedup_inv_set)
next
  case (Some found)
  with inv have f: "entry_ok xs (line x) found" by (simp add: dedup_inv_def)
  show ?thesis
  proof (cases "unshifted x")
    case True
    have "dedup_step x kvs = map_set (line x) (x\<lparr>origins := origins x @ origins found\<rparr>) kvs"
      using Some True wf by (simp add: dedup_step_def line_push)
    moreover have "entry_ok (xs @ [x]) (line x) (x\<lparr>origins := origins x @ origins found\<rparr>)"
      using f wf True
      by (simp add: entry_ok_def on_line_snoc line_push primary_of_snoc origin_push)
    ultimately show ?thesis using inv by (simp add: dedup_inv_set)
  next
    case False
    from f have lf: "line found = line x" and nf: "origins found \<noteq> []"
      by (simp_all add: entry_ok_def)
    have "dedup_step x kvs = map_set (line x) (found\<lparr>origins := origins found @ origins x\<rparr>) kvs"
      using Some False lf nf by (simp add: dedup_step_def line_push)
    moreover have "entry_ok (xs @ [x]) (line x) (found\<lparr>origins := origins found @ origins x\<rparr>)"
      using f wf False
      by (simp add: entry_ok_def on_line_snoc line_push primary_of_snoc origin_push)
    ultimately show ?thesis using inv by (simp add: dedup_inv_set)
  qed
qed

lemma dedup_inv_fold:
  "\<forall>b\<in>set xs. origins b \<noteq> [] \<Longrightarrow> dedup_inv xs (fold dedup_step xs [])"
proof (induction xs rule: rev_induct)
  case Nil
  show ?case by (simp add: dedup_inv_def)
next
  case (snoc x xs)
  then show ?case by (simp add: dedup_inv_step)
qed

lemma dedup_keys:
  assumes wf: "\<forall>b\<in>set all. origins b \<noteq> []"
  shows "distinct (map line (dedupBreakpoints all))"
    and "set (map line (dedupBreakpoints all)) = line ` set all"
proof -
  let ?kvs = "fold dedup_step all []"
  from dedup_inv_fold [OF wf] have d: "distinct (map fst ?kvs)"
    and k: "fst ` set ?kvs = line ` set all"
    and e: "\<And>k p. map_of ?kvs k = Some p \<Longrightarrow> entry_ok all k p"
    by (auto simp: dedup_inv_def)
  have "line p = k" if "(k, p) \<in> set ?kvs" for k p
    using that d e [of k p] by (simp add: entry_ok_def)
  then have "\<forall>x\<in>set ?kvs. (line \<circ> snd) x = fst x" by auto
  then have "map (line \<circ> snd) ?kvs = map fst ?kvs"
    by (simp only: map_eq_conv)
  then have keys: "map line (dedupBreakpoints all) = map fst ?kvs"
    by (simp add: dedupBreakpoints_def)
  from keys d show "distinct (map line (dedupBreakpoints all))" by simp
  from keys k show "set (map line (dedupBreakpoints all)) = line ` set all" by simp
qed

lemma dedup_entry:
  assumes wf: "\<forall>b\<in>set all. origins b \<noteq> []" and p: "p \<in> set (dedupBreakpoints all)"
  shows "entry_ok all (line p) p"
proof -
  let ?kvs = "fold dedup_step all []"
  from dedup_inv_fold [OF wf] have d: "distinct (map fst ?kvs)"
    and e: "\<And>k p. map_of ?kvs k = Some p \<Longrightarrow> entry_ok all k p"
    by (auto simp: dedup_inv_def)
  from p obtain k where k: "map_of ?kvs k = Some p"
    using map_of_mem [OF d] by (auto simp: dedupBreakpoints_def)
  from e [OF k] have "line p = k" by (simp add: entry_ok_def)
  with e [OF k] show ?thesis by simp
qed

lemma mset_concat_perm:
  assumes "mset xs = mset ys"
  shows "mset (concat (map f xs)) = mset (concat (map f ys))"
proof -
  have "mset (concat (map f zs)) = (\<Sum>z\<in>#mset zs. mset (f z))" for zs :: "'a list"
    by (induction zs) simp_all
  with assms show ?thesis by simp
qed

lemma dedup_distinct_lines:
  assumes "distinct (map line xs)" and "line ` set xs \<inter> fst ` set acc = {}"
  shows "fold dedup_step xs acc = acc @ map (\<lambda>b. (line b, b)) xs"
  using assms
proof (induction xs arbitrary: acc)
  case Nil
  show ?case by simp
next
  case (Cons x xs)
  from Cons.prems have fresh: "line x \<notin> fst ` set acc" by auto
  then have none: "map_of acc (line x) = None" by (simp add: map_of_eq_None_iff)
  have step: "dedup_step x acc = acc @ [(line x, x)]"
    using none fresh by (simp add: dedup_step_def map_set_fresh)
  have "distinct (map line xs)" and "line ` set xs \<inter> fst ` set (acc @ [(line x, x)]) = {}"
    using Cons.prems by auto
  from Cons.IH [OF this] step show ?case by simp
qed

lemma dedup_of_distinct: "distinct (map line xs) \<Longrightarrow> dedupBreakpoints xs = xs"
  by (simp add: dedupBreakpoints_def dedup_distinct_lines comp_def)

lemmas dedup_eval = dedupBreakpoints_def dedup_step_def line_def origin_def unshifted_def
  answered_def decl_def new_DebugBreakpoint_def

text \<open>
  C3. Whatever collection of breakpoints \<^verbatim>\<open>dedupBreakpoints\<close> is given (each with its own
  declaration among its origins, as the constructor leaves it), the result has exactly
  one entry for every line that shows in the input and none for any other line, and
  the origins of the entry for a line are the origins of all input breakpoints on that
  line, each as often as it occurs there.
\<close>

theorem dedup_one_entry_per_line:
  assumes wf: "\<forall>b\<in>set all. origins b \<noteq> []"
  shows "distinct (map line (dedupBreakpoints all)) \<and>
         set (map line (dedupBreakpoints all)) = line ` set all \<and>
         (\<forall>p\<in>set (dedupBreakpoints all).
            mset (origins p)
              = mset (concat (map origins (filter (\<lambda>b. line b = line p) all))))"
proof -
  have "mset (origins p) = mset (concat (map origins (filter (\<lambda>b. line b = line p) all)))"
    if "p \<in> set (dedupBreakpoints all)" for p
    using dedup_entry [OF wf that] by (simp add: entry_ok_def on_line_def)
  with dedup_keys [OF wf] show ?thesis by blast
qed

text \<open>
  Three breakpoints, two of which the adapter reports on line 5: two entries remain,
  and the entry for line 5 carries both declarations.
\<close>

theorem dedup_one_entry_per_line_witness:
  "origins (answered 4 5) \<noteq> [] \<and> origins (answered 5 5) \<noteq> [] \<and> origins (answered 7 7) \<noteq> [] \<and>
   distinct (map line (dedupBreakpoints [answered 4 5, answered 5 5, answered 7 7])) \<and>
   set (map line (dedupBreakpoints [answered 4 5, answered 5 5, answered 7 7])) = {5, 7} \<and>
   map origins (dedupBreakpoints [answered 4 5, answered 5 5, answered 7 7])
     = [[decl 5 True, decl 4 True], [decl 7 True]]"
proof -
  have wf: "\<forall>b\<in>set [answered 4 5, answered 5 5, answered 7 7]. origins b \<noteq> []"
    by (simp add: answered_def)
  from dedup_one_entry_per_line [OF wf] show ?thesis
    by (simp add: dedup_eval)
qed


text \<open>
  C4, as the code has it. For two collections that are permutations of each other
  \<^verbatim>\<open>dedupBreakpoints\<close> yields entries for the same lines, and the entries for a line
  carry the same origins (up to their order). When exactly one of the breakpoints on a
  line is unshifted (the adapter answered and reports it on its requested line), that
  one is the primary in both results. When none or several are unshifted the primary
  follows the iteration order: the first breakpoint of the line, or the last unshifted
  one.
\<close>

theorem dedup_permutation:
  assumes perm: "mset all' = mset all"
    and wf: "\<forall>b\<in>set all. origins b \<noteq> []"
  shows "set (map line (dedupBreakpoints all')) = set (map line (dedupBreakpoints all)) \<and>
         (\<forall>p\<in>set (dedupBreakpoints all). \<forall>p'\<in>set (dedupBreakpoints all').
            line p' = line p \<longrightarrow>
              mset (origins p') = mset (origins p) \<and>
              (\<forall>u. filter unshifted (filter (\<lambda>b. line b = line p) all) = [u] \<longrightarrow>
                 raw p = raw u \<and> origin p = origin u \<and>
                 raw p' = raw u \<and> origin p' = origin u))"
proof -
  from perm have sets: "set all' = set all" by (rule mset_eq_setD)
  with wf have wf': "\<forall>b\<in>set all'. origins b \<noteq> []" by simp
  have lines: "set (map line (dedupBreakpoints all')) = set (map line (dedupBreakpoints all))"
    using dedup_keys(2) [OF wf] dedup_keys(2) [OF wf'] sets by simp
  have grp: "mset (on_line l all') = mset (on_line l all)" for l
    using perm by (simp add: on_line_def)
  have "mset (origins p') = mset (origins p) \<and>
        (\<forall>u. filter unshifted (filter (\<lambda>b. line b = line p) all) = [u] \<longrightarrow>
           raw p = raw u \<and> origin p = origin u \<and> raw p' = raw u \<and> origin p' = origin u)"
    if p: "p \<in> set (dedupBreakpoints all)" and p': "p' \<in> set (dedupBreakpoints all')"
      and same: "line p' = line p" for p p'
  proof -
    from dedup_entry [OF wf p] have e: "entry_ok all (line p) p" .
    from dedup_entry [OF wf' p'] same have e': "entry_ok all' (line p) p'" by simp
    have "mset (origins p') = mset (origins p)"
      using e e' mset_concat_perm [OF grp, of origins "line p"] by (simp add: entry_ok_def)
    moreover have "raw p = raw u \<and> origin p = origin u \<and> raw p' = raw u \<and> origin p' = origin u"
      if u: "filter unshifted (filter (\<lambda>b. line b = line p) all) = [u]" for u
    proof -
      from u have 1: "filter unshifted (on_line (line p) all) = [u]" by (simp add: on_line_def)
      have "mset (filter unshifted (on_line (line p) all'))
              = mset (filter unshifted (on_line (line p) all))"
        using grp by simp
      with 1 have 2: "filter unshifted (on_line (line p) all') = [u]"
        by (simp add: mset_single_iff_right del: mset_filter)
      from 1 have "primary_of (on_line (line p) all) = u" by (simp add: primary_of_def)
      moreover from 2 have "primary_of (on_line (line p) all') = u" by (simp add: primary_of_def)
      ultimately show ?thesis using e e' by (simp add: entry_ok_def)
    qed
    ultimately show ?thesis by blast
  qed
  with lines show ?thesis by blast
qed

text \<open>
  On line 5 one breakpoint is unshifted and one was moved there: the unshifted one is
  the primary whichever comes first.
\<close>

theorem dedup_permutation_witness:
  "mset [answered 5 5, answered 7 7, answered 4 5] = mset [answered 4 5, answered 5 5, answered 7 7] \<and>
   origins (answered 4 5) \<noteq> [] \<and> origins (answered 5 5) \<noteq> [] \<and> origins (answered 7 7) \<noteq> [] \<and>
   set (map line (dedupBreakpoints [answered 5 5, answered 7 7, answered 4 5]))
     = set (map line (dedupBreakpoints [answered 4 5, answered 5 5, answered 7 7])) \<and>
   map origin (dedupBreakpoints [answered 5 5, answered 7 7, answered 4 5])
     = [decl 5 True, decl 7 True] \<and>
   map origin (dedupBreakpoints [answered 4 5, answered 5 5, answered 7 7])
     = [decl 5 True, decl 7 True]"
proof -
  have perm: "mset [answered 5 5, answered 7 7, answered 4 5]
                = mset [answered 4 5, answered 5 5, answered 7 7]"
    by (simp add: add_mset_commute)
  have wf: "\<forall>b\<in>set [answered 4 5, answered 5 5, answered 7 7]. origins b \<noteq> []"
    by (simp add: answered_def)
  from dedup_permutation [OF perm wf] perm show ?thesis
    by (simp add: dedup_eval)
qed

text \<open>
  Two breakpoints requested on lines 3 and 4, both moved to line 5 by the adapter:
  neither is unshifted, the first in iteration order is the primary, and the two orders
  of the same collection give different primaries.
\<close>

theorem dedup_order_counterexample:
  "mset [answered 4 5, answered 3 5] = mset [answered 3 5, answered 4 5] \<and>
   map origin (dedupBreakpoints [answered 3 5, answered 4 5]) = [decl 3 True] \<and>
   map origin (dedupBreakpoints [answered 4 5, answered 3 5]) = [decl 4 True] \<and>
   map origin (dedupBreakpoints [answered 3 5, answered 4 5])
     \<noteq> map origin (dedupBreakpoints [answered 4 5, answered 3 5])"
  by (simp add: dedup_eval)


section \<open>Threads and the derived state\<close>

lemma same_threads_refl: "same_threads s s"
  by (simp add: same_threads_def)

lemma same_threads_trans: "same_threads s s' \<Longrightarrow> same_threads s' s'' \<Longrightarrow> same_threads s s''"
  by (simp add: same_threads_def)

lemma same_threads_inv: "same_threads s s' \<Longrightarrow> thread_inv s \<Longrightarrow> thread_inv s'"
  by (simp add: same_threads_def thread_inv_def split: option.splits)

lemma sendRequest_live:
  "\<not> disposed s \<Longrightarrow> sendRequest e s r = (adapter e (sent s) r, s\<lparr>sent := sent s @ [r]\<rparr>)"
  by (simp add: sendRequest_def)

lemma same_threads_sendRequest: "same_threads s (snd (sendRequest e s r))"
  by (simp add: sendRequest_def same_threads_def)

lemma same_threads_loop: "same_threads s (snd (updateBreakpoints_loop e m us s))"
proof (induction us arbitrary: s)
  case Nil
  show ?case by (simp add: same_threads_refl)
next
  case (Cons u us)
  let ?req = "SetBreakpoints u m (map (\<lambda>b. sb_raw (origin b))
        (filter enabled (map new_DebugBreakpoint (findMarkers (store e) (Some u)))))"
  obtain r s' where sr: "sendRequest e s ?req = (r, s')" by (cases "sendRequest e s ?req")
  then have 1: "same_threads s s'"
    using same_threads_sendRequest [of s e ?req] by simp
  show ?case
  proof (cases r)
    case (Inl err)
    with sr 1 show ?thesis by (simp add: Let_def)
  next
    case (Inr body)
    show ?thesis
    proof (cases body)
      case (Body_breakpoints rs)
      let ?s2 = "s'\<lparr>breakpoints := map_set u (dedupBreakpoints (apply_raws rs
          (map new_DebugBreakpoint (findMarkers (store e) (Some u))))) (breakpoints s'),
          changed := changed s' @ [u]\<rparr>"
      have 2: "same_threads s ?s2" using 1 by (simp add: same_threads_def)
      from Cons.IH [of ?s2] 2 have "same_threads s (snd (updateBreakpoints_loop e m us ?s2))"
        by (rule same_threads_trans [rotated])
      with sr Inr Body_breakpoints 1 show ?thesis by (simp add: Let_def)
    qed (use sr Inr 1 in \<open>simp_all add: Let_def\<close>)
  qed
qed

lemma same_threads_updateBreakpoints: "same_threads s (snd (updateBreakpoints e s u m))"
  by (simp add: updateBreakpoints_def same_threads_loop)

lemma same_threads_initialize: "same_threads s (snd (initialize e s))"
proof -
  obtain r s' where sr: "sendRequest e s (Initialize (cfg_type (configuration s))) = (r, s')"
    by (cases "sendRequest e s (Initialize (cfg_type (configuration s)))")
  with same_threads_sendRequest [of s e "Initialize (cfg_type (configuration s))"]
  have "same_threads s s'" by simp
  with sr show ?thesis
    by (auto simp: initialize_def same_threads_def split: sum.splits response.splits)
qed

lemma same_threads_launchOrAttach: "same_threads s (snd (launchOrAttach e s))"
proof -
  let ?req = "if cfg_request (configuration s) = ''attach''
              then Attach (configuration s) else Launch (configuration s)"
  obtain r s' where sr: "sendRequest e s ?req = (r, s')" by (cases "sendRequest e s ?req")
  with same_threads_sendRequest [of s e ?req] have "same_threads s s'" by simp
  with sr show ?thesis
    by (auto simp: launchOrAttach_def same_threads_def Let_def split: sum.splits option.splits)
qed

lemma same_threads_start: "same_threads s (snd (start e s))"
proof (cases "initialize e s")
  case (Pair r s')
  with same_threads_initialize [of s e] have 1: "same_threads s s'" by simp
  show ?thesis
  proof (cases r)
    case None
    with Pair 1 same_threads_launchOrAttach [of s' e] show ?thesis
      by (auto simp: start_def intro: same_threads_trans)
  next
    case (Some err)
    with Pair 1 show ?thesis by (simp add: start_def)
  qed
qed

lemma first_thread_mem: "first_thread s = Some a \<Longrightarrow> a \<in> snd ` set (threads s)"
  by (auto simp: first_thread_def split: list.splits)

lemma first_thread_None: "first_thread s = None \<Longrightarrow> threads s = []"
  by (auto simp: first_thread_def split: list.splits)

lemma threads_updateCurrentThread: "threads (updateCurrentThread d s) = threads s"
  by (simp add: updateCurrentThread_def Let_def)

lemma thread_inv_updateCurrentThread: "thread_inv (updateCurrentThread d s)"
proof (cases "currentThread (updateCurrentThread d s)")
  case None
  then have "first_thread s = None"
    by (auto simp: updateCurrentThread_def Let_def split: option.splits if_splits)
  with None show ?thesis
    by (simp add: thread_inv_def first_thread_None threads_updateCurrentThread)
next
  case (Some a)
  then have "first_thread s = Some a \<or> (\<exists>i. map_of (threads s) i = Some a)"
    by (auto simp: updateCurrentThread_def Let_def split: option.splits if_splits)
  then have "a \<in> snd ` set (threads s)"
    by (auto dest: first_thread_mem map_of_mem_snd)
  with Some show ?thesis by (simp add: thread_inv_def threads_updateCurrentThread)
qed

lemma thread_inv_doUpdateThreads: "thread_inv (doUpdateThreads rs d s)"
  by (simp add: doUpdateThreads_def thread_inv_updateCurrentThread)

lemma thread_inv_catch_log: "thread_inv (snd (catch_log (r, s))) = thread_inv s"
  by (cases r) (simp_all add: catch_log_def thread_inv_def)

lemma thread_inv_emptied: "thread_inv (s\<lparr>threads := []\<rparr>)"
  by (simp add: thread_inv_def)

lemma thread_inv_refresh_result: "thread_inv s \<Longrightarrow> thread_inv (snd (refresh_result r d s))"
  by (auto simp: refresh_result_def thread_inv_doUpdateThreads thread_inv_emptied
        split: sum.splits response.splits)

lemma thread_inv_updateThreads:
  assumes "thread_inv s"
  shows "thread_inv (snd (updateThreads e s d))"
proof -
  obtain r s' where sr: "sendRequest e s Threads = (r, s')" by (cases "sendRequest e s Threads")
  with same_threads_sendRequest [of s e Threads] assms have "thread_inv s'"
    by (auto dest: same_threads_inv)
  then have "thread_inv (snd (refresh_result r d s'))" by (rule thread_inv_refresh_result)
  then have "thread_inv (snd (catch_log (refresh_result r d s')))"
    by (cases "refresh_result r d s'") (simp add: thread_inv_catch_log)
  with sr show ?thesis by (simp add: updateThreads_def)
qed

lemma thread_inv_initialized: "thread_inv (s\<lparr>initialized := b\<rparr>) = thread_inv s"
  by (simp add: thread_inv_def)

lemma thread_inv_scheduled: "thread_inv (s\<lparr>scheduled := b\<rparr>) = thread_inv s"
  by (simp add: thread_inv_def)

lemma thread_inv_capabilities: "thread_inv (s\<lparr>capabilities := b\<rparr>) = thread_inv s"
  by (simp add: thread_inv_def)

lemma thread_inv_configure:
  assumes "thread_inv s"
  shows "thread_inv (snd (configure e s))"
proof -
  obtain r1 s1 where ub: "updateBreakpoints e s None False = (r1, s1)"
    by (cases "updateBreakpoints e s None False")
  with same_threads_updateBreakpoints [of s e None False] assms have i1: "thread_inv s1"
    by (auto dest: same_threads_inv)
  obtain r2 s2 where sr: "sendRequest e s1 ConfigurationDone = (r2, s2)"
    by (cases "sendRequest e s1 ConfigurationDone")
  with same_threads_sendRequest [of s1 e ConfigurationDone] i1 have i2: "thread_inv s2"
    by (auto dest: same_threads_inv)
  show ?thesis
    using ub sr i1 i2
    by (cases r1; cases r2)
       (simp_all add: configure_def thread_inv_updateThreads thread_inv_initialized)
qed

lemma thread_inv_clearThreads: "thread_inv (clearThreads s)"
  by (simp add: clearThreads_def thread_inv_updateCurrentThread)

lemma thread_inv_clearThread: "thread_inv (clearThread i s)"
  by (simp add: clearThread_def thread_inv_updateCurrentThread)

lemma thread_inv_handle: "thread_inv s \<Longrightarrow> thread_inv (handle e s ev)"
proof (cases ev)
  case (MarkersChanged u)
  assume "thread_inv s"
  with same_threads_updateBreakpoints [of s e "Some u" True] MarkersChanged show ?thesis
    by (auto dest: same_threads_inv)
qed (simp_all add: thread_inv_configure thread_inv_clearThreads thread_inv_clearThread
       thread_inv_updateThreads updateCapabilities_def thread_inv_capabilities
       thread_inv_scheduled)

lemma reachable_thread_inv: "reachable s \<Longrightarrow> thread_inv s"
proof (induction rule: reachable.induct)
  case (reachable_new i c)
  show ?case by (simp add: thread_inv_def new_DebugSession_def)
next
  case (reachable_start s e)
  from same_threads_start [of s e] reachable_start.IH show ?case by (rule same_threads_inv)
next
  case (reachable_handle s e ev)
  then show ?case by (simp add: thread_inv_handle)
next
  case (reachable_dispose s)
  show ?case by (simp add: dispose_def thread_inv_doUpdateThreads)
qed

lemmas run_eval = configured_def two_threads_def plain_config_def stop_of_def new_DebugSession_def
  configure_def updateBreakpoints_def getAffectedUris_def getUris_def capability_def
  sendRequest_def updateThreads_def refresh_result_def catch_log_def doUpdateThreads_def
  doUpdateThread_def updateCurrentThread_def first_thread_def thread_update_def
  new_DebugThread_def state_def stopped_def stoppedThreads_def Let_def

text \<open>
  C1, as the code has it. In every session that can arise, while the connection is not
  disposed and the session is initialized, the derived state is \<open>Stopped\<close> exactly when
  the current thread is marked stopped, and \<open>Running\<close> otherwise. There is a current
  thread unless the thread map is empty; while the map is not empty the current thread
  is one of its threads, so that \<open>Stopped\<close> then implies that a thread of the map is
  stopped. A stopped thread that is not the current one does not make the session
  \<open>Stopped\<close>.
\<close>

theorem state_follows_current_thread:
  assumes r: "reachable s" and live: "\<not> disposed s" and init: "initialized s"
  shows "(state s = Stopped \<longleftrightarrow> (\<exists>a. currentThread s = Some a \<and> stopped (objects s a))) \<and>
         (state s \<noteq> Stopped \<longrightarrow> state s = Running) \<and>
         (currentThread s = None \<longrightarrow> threads s = []) \<and>
         (threads s \<noteq> [] \<longrightarrow>
            (\<exists>a. currentThread s = Some a \<and> a \<in> snd ` set (threads s)) \<and>
            (state s = Stopped \<longrightarrow> stoppedThreads s \<noteq> []))"
proof -
  from r have inv: "thread_inv s" by (rule reachable_thread_inv)
  have empty: "stoppedThreads s = []" if "currentThread s = None"
    using that inv by (simp add: thread_inv_def stoppedThreads_def)
  have cur: "stoppedThreads s \<noteq> []"
    if "currentThread s = Some a" "stopped (objects s a)" "threads s \<noteq> []" for a
  proof -
    from that inv obtain i where "(i, a) \<in> set (threads s)" by (auto simp: thread_inv_def)
    with that show ?thesis
      by (force simp: stoppedThreads_def filter_empty_conv)
  qed
  show ?thesis
  proof (cases "currentThread s")
    case None
    with live init empty inv show ?thesis by (simp add: state_def thread_inv_def)
  next
    case (Some a)
    with live init cur [of a] inv show ?thesis by (auto simp: state_def thread_inv_def)
  qed
qed

text \<open>
  A configured session with threads 1 and 2 receives \<^verbatim>\<open>stopped\<close> for thread 2: thread 2
  becomes current and the session is \<open>Stopped\<close>.
\<close>

theorem state_follows_current_thread_witness:
  "reachable (handle two_threads configured (StoppedEvent (stop_of 2 None))) \<and>
   \<not> disposed (handle two_threads configured (StoppedEvent (stop_of 2 None))) \<and>
   initialized (handle two_threads configured (StoppedEvent (stop_of 2 None))) \<and>
   state (handle two_threads configured (StoppedEvent (stop_of 2 None))) = Stopped \<and>
   currentThread (handle two_threads configured (StoppedEvent (stop_of 2 None))) = Some 1 \<and>
   threads (handle two_threads configured (StoppedEvent (stop_of 2 None))) = [(1, 0), (2, 1)]"
proof -
  have "reachable configured"
    unfolding configured_def by (intro reachable.intros)
  then have r: "reachable (handle two_threads configured (StoppedEvent (stop_of 2 None)))"
    by (rule reachable_handle)
  have l: "\<not> disposed (handle two_threads configured (StoppedEvent (stop_of 2 None)))"
    and i: "initialized (handle two_threads configured (StoppedEvent (stop_of 2 None)))"
    by (simp_all add: run_eval)
  from state_follows_current_thread [OF r l i] r l i show ?thesis
    by (simp add: run_eval)
qed

text \<open>
  The same session receives \<^verbatim>\<open>stopped\<close> for thread 2 with \<^verbatim>\<open>preserveFocusHint\<close>: thread 2
  is marked stopped, thread 1 stays current, and the session is \<open>Running\<close>.
\<close>

theorem state_ignores_other_stopped_thread:
  "reachable (handle two_threads configured (StoppedEvent (stop_of 2 (Some True)))) \<and>
   \<not> disposed (handle two_threads configured (StoppedEvent (stop_of 2 (Some True)))) \<and>
   initialized (handle two_threads configured (StoppedEvent (stop_of 2 (Some True)))) \<and>
   stoppedThreads (handle two_threads configured (StoppedEvent (stop_of 2 (Some True)))) \<noteq> [] \<and>
   state (handle two_threads configured (StoppedEvent (stop_of 2 (Some True)))) = Running"
proof -
  have "reachable configured"
    unfolding configured_def by (intro reachable.intros)
  then have "reachable (handle two_threads configured (StoppedEvent (stop_of 2 (Some True))))"
    by (rule reachable_handle)
  then show ?thesis by (simp add: run_eval)
qed

text \<open>
  Thread 2 is stopped and current when a \<^verbatim>\<open>threads\<close> answer arrives whose body has no
  \<^verbatim>\<open>threads\<close> array: the map is emptied, thread 2 stays current, and the session is
  \<open>Stopped\<close> with an empty thread map.
\<close>

lemma stale_current_thread:
  "threads (handle forgetful
      (handle forgetful
         (handle forgetful (new_DebugSession ''s1'' plain_config) InitializedEvent)
         (StoppedEvent (stop_of 2 None)))
      (StoppedEvent (stop_of 2 None))) = [] \<and>
   currentThread (handle forgetful
      (handle forgetful
         (handle forgetful (new_DebugSession ''s1'' plain_config) InitializedEvent)
         (StoppedEvent (stop_of 2 None)))
      (StoppedEvent (stop_of 2 None))) = Some 1 \<and>
   state (handle forgetful
      (handle forgetful
         (handle forgetful (new_DebugSession ''s1'' plain_config) InitializedEvent)
         (StoppedEvent (stop_of 2 None)))
      (StoppedEvent (stop_of 2 None))) = Stopped"
  by (simp add: forgetful_def run_eval)

section \<open>Capabilities\<close>

lemma map_of_object_assign:
  "map_of (object_assign target source) = map_of target ++ map_of (rev source)"
  unfolding object_assign_def
proof (induction source arbitrary: target)
  case Nil
  show ?case by simp
next
  case (Cons kv source)
  obtain k v where kv: "kv = (k, v)" by (cases kv)
  have "map_of (fold (\<lambda>(k, v). map_set k v) source (map_set k v target))
        = map_of (map_set k v target) ++ map_of (rev source)"
    by (rule Cons.IH)
  then show ?case
    by (simp add: kv map_of_map_set map_add_def fun_eq_iff split: option.splits)
qed


text \<open>
  C9. A \<^verbatim>\<open>capabilities\<close> event merges its payload into the stored capability set: the
  fields of the payload take the payload's values, and every field the payload does
  not mention keeps the value it had.
\<close>

theorem capabilities_event_merges:
  "map_of (capabilities (handle e s (CapabilitiesEvent c)))
     = map_of (capabilities s) ++ map_of (rev c) \<and>
   (k \<notin> fst ` set c \<longrightarrow>
      map_of (capabilities (handle e s (CapabilitiesEvent c))) k = map_of (capabilities s) k)"
proof -
  have "map_of (rev c) k = None" if "k \<notin> fst ` set c"
    using that by (simp add: map_of_eq_None_iff)
  then show ?thesis
    by (simp add: updateCapabilities_def map_of_object_assign map_add_def)
qed

text \<open>
  A session that supports restart and configuration-done is told that configuration-done
  is not supported: the restart capability stays.
\<close>

theorem capabilities_event_merges_witness:
  "''supportsRestartRequest'' \<notin> fst ` set [(''supportsConfigurationDoneRequest'', JBool False)] \<and>
   map_of (capabilities (handle two_threads
        (updateCapabilities [(''supportsRestartRequest'', JBool True),
                             (''supportsConfigurationDoneRequest'', JBool True)]
           (new_DebugSession ''s1'' plain_config))
        (CapabilitiesEvent [(''supportsConfigurationDoneRequest'', JBool False)])))
      ''supportsRestartRequest'' = Some (JBool True) \<and>
   capabilities (handle two_threads
        (updateCapabilities [(''supportsRestartRequest'', JBool True),
                             (''supportsConfigurationDoneRequest'', JBool True)]
           (new_DebugSession ''s1'' plain_config))
        (CapabilitiesEvent [(''supportsConfigurationDoneRequest'', JBool False)]))
     = [(''supportsRestartRequest'', JBool True), (''supportsConfigurationDoneRequest'', JBool False)]"
proof -
  let ?s = "updateCapabilities [(''supportsRestartRequest'', JBool True),
                             (''supportsConfigurationDoneRequest'', JBool True)]
           (new_DebugSession ''s1'' plain_config)"
  let ?c = "[(''supportsConfigurationDoneRequest'', JBool False)]"
  have "map_of (capabilities ?s) ''supportsRestartRequest'' = Some (JBool True)"
    by (simp add: updateCapabilities_def object_assign_def new_DebugSession_def)
  with capabilities_event_merges [of two_threads ?s ?c "''supportsRestartRequest''"]
  show ?thesis
    by (simp add: updateCapabilities_def object_assign_def new_DebugSession_def)
qed

section \<open>Breakpoint resync\<close>

lemma enabled_new: "enabled (new_DebugBreakpoint d) = sb_enabled d"
  by (simp add: enabled_def origin_def new_DebugBreakpoint_def)

lemma origin_new: "origin (new_DebugBreakpoint d) = d"
  by (simp add: origin_def new_DebugBreakpoint_def)

lemma line_new: "line (new_DebugBreakpoint d) = src_line (sb_raw d)"
  by (simp add: line_def origin_def new_DebugBreakpoint_def)

lemma request_of_markers:
  "map (\<lambda>b. sb_raw (origin b)) (filter enabled (map new_DebugBreakpoint ms))
   = map sb_raw (filter sb_enabled ms)"
  by (induction ms) (simp_all add: enabled_new origin_new)

lemma loop_step:
  "updateBreakpoints_loop e m (u # us) s =
     (case sendRequest e s (resync_request e m u) of
        (Inl err, s') \<Rightarrow> (Some err, s')
      | (Inr (Body_breakpoints rs), s') \<Rightarrow>
          if length (filter sb_enabled (findMarkers (store e) (Some u))) < length rs
          then (Some (Error ''TypeError''), s')
          else updateBreakpoints_loop e m us
                 (s'\<lparr>breakpoints :=
                       map_set u (dedupBreakpoints (apply_raws rs
                         (map new_DebugBreakpoint (findMarkers (store e) (Some u)))))
                         (breakpoints s'),
                     changed := changed s' @ [u]\<rparr>)
      | (Inr _, s') \<Rightarrow> (Some (Error ''TypeError''), s'))"
proof -
  have len: "length (filter enabled (map new_DebugBreakpoint ms)) = length (filter sb_enabled ms)"
    for ms
    using arg_cong [OF request_of_markers [of ms], of length] by simp
  show ?thesis
    by (simp add: Let_def resync_request_def request_of_markers len comp_def enabled_new
          split: prod.splits sum.splits response.splits)
qed

declare updateBreakpoints_loop.simps(2) [simp del]

lemma loop_sent:
  assumes "\<not> disposed s"
  shows "\<exists>n. n \<le> length us \<and> (us \<noteq> [] \<longrightarrow> 0 < n) \<and>
           sent (snd (updateBreakpoints_loop e m us s))
             = sent s @ map (resync_request e m) (take n us)"
  using assms
proof (induction us arbitrary: s)
  case Nil
  show ?case by simp
next
  case (Cons u us)
  let ?s' = "s\<lparr>sent := sent s @ [resync_request e m u]\<rparr>"
  have sr: "sendRequest e s (resync_request e m u)
              = (adapter e (sent s) (resync_request e m u), ?s')"
    using Cons.prems by (rule sendRequest_live)
  have stop: "\<exists>n. n \<le> length (u # us) \<and> (u # us \<noteq> [] \<longrightarrow> 0 < n) \<and>
     sent ?s' = sent s @ map (resync_request e m) (take n (u # us))"
    by (rule exI [of _ 1]) simp
  show ?case
  proof (cases "adapter e (sent s) (resync_request e m u)")
    case (Inl err)
    with sr stop show ?thesis by (simp add: loop_step)
  next
    case (Inr body)
    show ?thesis
    proof (cases body)
      case (Body_breakpoints rs)
      show ?thesis
      proof (cases "length (filter sb_enabled (findMarkers (store e) (Some u))) < length rs")
        case True
        with sr Inr Body_breakpoints stop show ?thesis by (simp add: loop_step)
      next
        case False
        let ?s2 = "?s'\<lparr>breakpoints :=
                       map_set u (dedupBreakpoints (apply_raws rs
                         (map new_DebugBreakpoint (findMarkers (store e) (Some u)))))
                         (breakpoints ?s'),
                     changed := changed ?s' @ [u]\<rparr>"
        have "\<not> disposed ?s2" using Cons.prems by simp
        from Cons.IH [OF this] obtain n where n: "n \<le> length us"
          "sent (snd (updateBreakpoints_loop e m us ?s2))
             = sent ?s2 @ map (resync_request e m) (take n us)"
          by blast
        have "Suc n \<le> length (u # us) \<and> (u # us \<noteq> [] \<longrightarrow> 0 < Suc n) \<and>
              sent (snd (updateBreakpoints_loop e m (u # us) s))
                = sent s @ map (resync_request e m) (take (Suc n) (u # us))"
          using n sr Inr Body_breakpoints False by (simp add: loop_step)
        then show ?thesis by blast
      qed
    qed (use sr Inr stop in \<open>simp_all add: loop_step\<close>)
  qed
qed

lemma loop_acknowledged:
  assumes live: "\<not> disposed s"
    and ack: "\<forall>log u bs. \<exists>rs. adapter e log (SetBreakpoints u m bs) = Inr (Body_breakpoints rs) \<and>
                length rs \<le> length bs"
  shows "\<exists>s'. updateBreakpoints_loop e m us s = (None, s') \<and>
           sent s' = sent s @ map (resync_request e m) us \<and>
           \<not> disposed s' \<and> capabilities s' = capabilities s \<and> initialized s' = initialized s"
  using live
proof (induction us arbitrary: s)
  case Nil
  then show ?case by simp
next
  case (Cons u us)
  let ?bs = "map sb_raw (filter sb_enabled (findMarkers (store e) (Some u)))"
  let ?s' = "s\<lparr>sent := sent s @ [resync_request e m u]\<rparr>"
  from ack obtain rs where rs: "adapter e (sent s) (SetBreakpoints u m ?bs) = Inr (Body_breakpoints rs)"
    "length rs \<le> length ?bs" by blast
  have sr: "sendRequest e s (resync_request e m u) = (Inr (Body_breakpoints rs), ?s')"
    using Cons.prems rs(1) by (simp add: sendRequest_live resync_request_def)
  let ?s2 = "?s'\<lparr>breakpoints :=
                 map_set u (dedupBreakpoints (apply_raws rs
                   (map new_DebugBreakpoint (findMarkers (store e) (Some u))))) (breakpoints ?s'),
               changed := changed ?s' @ [u]\<rparr>"
  have "\<not> disposed ?s2" using Cons.prems by simp
  from Cons.IH [OF this] obtain s3 where s3: "updateBreakpoints_loop e m us ?s2 = (None, s3)"
    "sent s3 = sent ?s2 @ map (resync_request e m) us" "\<not> disposed s3"
    "capabilities s3 = capabilities ?s2" "initialized s3 = initialized ?s2"
    by blast
  have "updateBreakpoints_loop e m (u # us) s = (None, s3)"
    using sr rs(2) s3(1) by (simp add: loop_step)
  with s3 show ?case by simp
qed

lemmas resync_eval = twice_on_5_def three_lines_def verifying_def decl_def line_at_def
  new_DebugSession_def updateBreakpoints_def getAffectedUris_def getUris_def findMarkers_def
  sendRequest_def Let_def enabled_def origin_def new_DebugBreakpoint_def dedupBreakpoints_def
  dedup_step_def line_def unshifted_def

text \<open>
  C2, as the code has it. A resync sends, for each resource it reaches, one
  \<^verbatim>\<open>setBreakpoints\<close> request whose breakpoints are the enabled declarations of that
  resource, all of them and in the order of the store: the request is built before
  \<^verbatim>\<open>dedupBreakpoints\<close> runs. The first resource is always reached; a failed request ends
  the resync. When the declarations of a resource are on pairwise different lines, the
  request holds no two breakpoints on one line and equals the enabled members of the
  deduplicated declarations.
\<close>

theorem resync_sends_enabled_declared:
  assumes "\<not> disposed s"
  shows "(\<exists>n. n \<le> length (getAffectedUris e u) \<and> (getAffectedUris e u \<noteq> [] \<longrightarrow> 0 < n) \<and>
            sent (snd (updateBreakpoints e s u m))
              = sent s @ map (\<lambda>u'. SetBreakpoints u' m
                    (map sb_raw (filter sb_enabled (findMarkers (store e) (Some u')))))
                  (take n (getAffectedUris e u))) \<and>
         (\<forall>u'. distinct (map (\<lambda>d. src_line (sb_raw d)) (findMarkers (store e) (Some u'))) \<longrightarrow>
            distinct (map src_line (map sb_raw (filter sb_enabled (findMarkers (store e) (Some u'))))) \<and>
            map sb_raw (filter sb_enabled (findMarkers (store e) (Some u')))
              = map (\<lambda>b. sb_raw (origin b))
                  (filter enabled (dedupBreakpoints
                     (map new_DebugBreakpoint (findMarkers (store e) (Some u'))))))"
proof -
  have 1: "\<exists>n. n \<le> length (getAffectedUris e u) \<and> (getAffectedUris e u \<noteq> [] \<longrightarrow> 0 < n) \<and>
            sent (snd (updateBreakpoints e s u m))
              = sent s @ map (\<lambda>u'. SetBreakpoints u' m
                    (map sb_raw (filter sb_enabled (findMarkers (store e) (Some u')))))
                  (take n (getAffectedUris e u))"
    using loop_sent [OF assms, of "getAffectedUris e u" e m]
    by (simp add: updateBreakpoints_def resync_request_def [abs_def])
  have 2: "distinct (map src_line (map sb_raw (filter sb_enabled ms))) \<and>
           map sb_raw (filter sb_enabled ms)
             = map (\<lambda>b. sb_raw (origin b))
                 (filter enabled (dedupBreakpoints (map new_DebugBreakpoint ms)))"
    if d: "distinct (map (\<lambda>d. src_line (sb_raw d)) ms)" for ms
  proof -
    from d have "distinct (map line (map new_DebugBreakpoint ms))"
      by (simp add: comp_def line_new)
    then have "dedupBreakpoints (map new_DebugBreakpoint ms) = map new_DebugBreakpoint ms"
      by (rule dedup_of_distinct)
    moreover have "distinct (map src_line (map sb_raw (filter sb_enabled ms)))"
      using d by (simp add: comp_def distinct_map_filter)
    ultimately show ?thesis by (simp add: request_of_markers)
  qed
  from 1 2 show ?thesis by blast
qed

text \<open>
  A resource with declarations on lines 3, 4 (disabled) and 9: the request holds lines
  3 and 9.
\<close>

theorem resync_sends_enabled_declared_witness:
  "\<not> disposed (new_DebugSession ''s1'' plain_config) \<and>
   sent (snd (updateBreakpoints three_lines (new_DebugSession ''s1'' plain_config)
                (Some ''file:///a.ts'') True))
     = [SetBreakpoints ''file:///a.ts'' True [line_at 3, line_at 9]] \<and>
   distinct (map (\<lambda>d. src_line (sb_raw d))
               (findMarkers (store three_lines) (Some ''file:///a.ts''))) \<and>
   map (\<lambda>b. sb_raw (origin b))
     (filter enabled (dedupBreakpoints (map new_DebugBreakpoint
        (findMarkers (store three_lines) (Some ''file:///a.ts'')))))
     = [line_at 3, line_at 9]"
proof -
  have live: "\<not> disposed (new_DebugSession ''s1'' plain_config)"
    by (simp add: new_DebugSession_def)
  have d: "distinct (map (\<lambda>d. src_line (sb_raw d))
                      (findMarkers (store three_lines) (Some ''file:///a.ts'')))"
    by (simp add: three_lines_def findMarkers_def decl_def)
  have m: "map sb_raw (filter sb_enabled (findMarkers (store three_lines) (Some ''file:///a.ts'')))
             = [line_at 3, line_at 9]"
    by (simp add: three_lines_def findMarkers_def decl_def line_at_def)
  from resync_sends_enabled_declared [OF live, of three_lines "Some ''file:///a.ts''" True] d m live
  show ?thesis
    by (auto simp: getAffectedUris_def new_DebugSession_def)
qed

text \<open>
  A resource with two enabled declarations on line 5: the request holds line 5 twice,
  while the enabled members of the deduplicated declarations are one breakpoint.
\<close>

theorem resync_sends_same_line_twice:
  "sent (snd (updateBreakpoints twice_on_5 (new_DebugSession ''s1'' plain_config)
                (Some ''file:///a.ts'') True))
     = [SetBreakpoints ''file:///a.ts'' True [line_at 5, line_at 5]] \<and>
   map (\<lambda>b. sb_raw (origin b))
     (filter enabled (dedupBreakpoints (map new_DebugBreakpoint
        (findMarkers (store twice_on_5) (Some ''file:///a.ts'')))))
     = [line_at 5]"
  by (simp add: resync_eval updateBreakpoints_loop.simps)


section \<open>Configuration and start\<close>

lemma updateThreads_sent: "\<not> disposed s \<Longrightarrow> sent (snd (updateThreads e s d)) = sent s @ [Threads]"
proof -
  assume live: "\<not> disposed s"
  have 1: "sent (snd (catch_log r)) = sent (snd r)" for r
    by (cases r) (simp add: catch_log_def split: option.splits)
  have 2: "sent (updateCurrentThread d' s') = sent s'" for d' s'
    by (simp add: updateCurrentThread_def Let_def)
  have 3: "sent (doUpdateThread ex d' r s') = sent s'" for ex d' r s'
    by (simp add: doUpdateThread_def Let_def split: option.splits)
  have 4: "sent (fold (doUpdateThread ex d') rs s') = sent s'" for ex d' rs s'
    by (induction rs arbitrary: s') (simp_all add: 3)
  have 5: "sent (snd (refresh_result r d s')) = sent s'" for r s'
    by (simp add: refresh_result_def doUpdateThreads_def 2 4 split: sum.splits response.splits)
  show ?thesis using live by (simp add: updateThreads_def sendRequest_live 1 5)
qed

lemma updateThreads_resolves: "fst (updateThreads e s d) = None"
proof -
  have "fst (catch_log r) = None" for r
    by (cases r) (simp add: catch_log_def split: option.splits)
  then show ?thesis by (simp add: updateThreads_def split: prod.splits)
qed

lemma updateThreads_initialized: "initialized (snd (updateThreads e s d)) = initialized s"
proof -
  have 1: "initialized (snd (catch_log r)) = initialized (snd r)" for r
    by (cases r) (simp add: catch_log_def split: option.splits)
  have 2: "initialized (updateCurrentThread d' s') = initialized s'" for d' s'
    by (simp add: updateCurrentThread_def Let_def)
  have 3: "initialized (doUpdateThread ex d' r s') = initialized s'" for ex d' r s'
    by (simp add: doUpdateThread_def Let_def split: option.splits)
  have 4: "initialized (fold (doUpdateThread ex d') rs s') = initialized s'" for ex d' rs s'
    by (induction rs arbitrary: s') (simp_all add: 3)
  have 5: "initialized (snd (refresh_result r d s')) = initialized s'" for r s'
    by (simp add: refresh_result_def doUpdateThreads_def 2 4 split: sum.splits response.splits)
  show ?thesis by (simp add: updateThreads_def sendRequest_def 1 5 split: prod.splits)
qed

text \<open>
  When the adapter refuses \<^verbatim>\<open>configurationDone\<close>, configure ends there: the session stays
  uninitialized and no \<^verbatim>\<open>threads\<close> request follows.
\<close>

lemma configure_stops_at_refusal:
  assumes live: "\<not> disposed s"
    and ack: "\<forall>log u bs. \<exists>rs. adapter e log (SetBreakpoints u False bs) = Inr (Body_breakpoints rs) \<and>
                length rs \<le> length bs"
    and cap: "capability s ''supportsConfigurationDoneRequest''"
    and refuse: "\<forall>log. adapter e log ConfigurationDone = Inl err"
  shows "fst (configure e s) = Some err \<and>
         initialized (snd (configure e s)) = initialized s \<and>
         sent (snd (configure e s))
           = sent s @ map (resync_request e False) (getUris (store e)) @ [ConfigurationDone]"
proof -
  from loop_acknowledged [OF live ack, of "getUris (store e)"]
  obtain s1 where s1: "updateBreakpoints e s None False = (None, s1)"
    "sent s1 = sent s @ map (resync_request e False) (getUris (store e))"
    "\<not> disposed s1" "capabilities s1 = capabilities s" "initialized s1 = initialized s"
    by (auto simp: updateBreakpoints_def getAffectedUris_def)
  have "capability s1 ''supportsConfigurationDoneRequest''"
    using s1(4) cap by (simp add: capability_def)
  moreover have "sendRequest e s1 ConfigurationDone
                   = (Inl err, s1\<lparr>sent := sent s1 @ [ConfigurationDone]\<rparr>)"
    using s1(3) refuse by (simp add: sendRequest_live)
  ultimately show ?thesis using s1 by (simp add: configure_def)
qed

text \<open>
  C5. On \<^verbatim>\<open>initialized\<close>, with an adapter that acknowledges \<^verbatim>\<open>setBreakpoints\<close> and
  \<^verbatim>\<open>configurationDone\<close>, the session sends, in this order: one \<^verbatim>\<open>setBreakpoints\<close> with
  \<^verbatim>\<open>sourceModified = false\<close> for each resource of the breakpoint store, then
  \<^verbatim>\<open>configurationDone\<close> exactly when the capability
  \<^verbatim>\<open>supportsConfigurationDoneRequest\<close> is truthy, then one \<^verbatim>\<open>threads\<close> request; it ends
  initialized, whatever the answer to \<^verbatim>\<open>threads\<close>.
\<close>

theorem configure_sequence:
  assumes live: "\<not> disposed s"
    and ack: "\<forall>log u bs. \<exists>rs. adapter e log (SetBreakpoints u False bs) = Inr (Body_breakpoints rs) \<and>
                length rs \<le> length bs"
    and cd: "\<forall>log. \<exists>r. adapter e log ConfigurationDone = Inr r"
  shows "sent (handle e s InitializedEvent)
           = sent s
             @ map (\<lambda>u. SetBreakpoints u False
                     (map sb_raw (filter sb_enabled (findMarkers (store e) (Some u)))))
                 (getUris (store e))
             @ (if capability s ''supportsConfigurationDoneRequest'' then [ConfigurationDone] else [])
             @ [Threads] \<and>
         initialized (handle e s InitializedEvent) \<and>
         fst (configure e s) = None"
proof -
  from loop_acknowledged [OF live ack, of "getUris (store e)"]
  obtain s1 where s1: "updateBreakpoints e s None False = (None, s1)"
    "sent s1 = sent s @ map (resync_request e False) (getUris (store e))"
    "\<not> disposed s1" "capabilities s1 = capabilities s"
    by (auto simp: updateBreakpoints_def getAffectedUris_def)
  have cap: "capability s1 k = capability s k" for k
    using s1(4) by (simp add: capability_def)
  show ?thesis
  proof (cases "capability s ''supportsConfigurationDoneRequest''")
    case False
    have c: "configure e s = updateThreads e (s1\<lparr>initialized := True\<rparr>) None"
      using s1(1) False by (simp add: configure_def cap)
    have "\<not> disposed (s1\<lparr>initialized := True\<rparr>)" using s1(3) by simp
    from updateThreads_sent [OF this] show ?thesis
      using c s1(2) False
      by (simp add: updateThreads_resolves updateThreads_initialized resync_request_def [abs_def])
  next
    case True
    from cd obtain r where r: "adapter e (sent s1) ConfigurationDone = Inr r" by blast
    let ?s2 = "s1\<lparr>sent := sent s1 @ [ConfigurationDone]\<rparr>"
    have sr: "sendRequest e s1 ConfigurationDone = (Inr r, ?s2)"
      using s1(3) r by (simp add: sendRequest_live)
    have c: "configure e s = updateThreads e (?s2\<lparr>initialized := True\<rparr>) None"
      using s1(1) True sr by (simp add: configure_def cap)
    have "\<not> disposed (?s2\<lparr>initialized := True\<rparr>)" using s1(3) by simp
    from updateThreads_sent [OF this] show ?thesis
      using c s1(2) True
      by (simp add: updateThreads_resolves updateThreads_initialized resync_request_def [abs_def])
  qed
qed

text \<open>
  A store with two resources, and a session with and without the capability.
\<close>

theorem configure_sequence_witness:
  "\<not> disposed (supporting True) \<and> \<not> disposed (supporting False) \<and>
   sent (handle three_lines (supporting True) InitializedEvent)
     = [SetBreakpoints ''file:///a.ts'' False [line_at 3, line_at 9],
        SetBreakpoints ''file:///b.ts'' False [line_at 1], ConfigurationDone, Threads] \<and>
   sent (handle three_lines (supporting False) InitializedEvent)
     = [SetBreakpoints ''file:///a.ts'' False [line_at 3, line_at 9],
        SetBreakpoints ''file:///b.ts'' False [line_at 1], Threads] \<and>
   initialized (handle three_lines (supporting True) InitializedEvent) \<and>
   initialized (handle three_lines (supporting False) InitializedEvent)"
proof -
  have live: "\<not> disposed (supporting b)" for b
    by (simp add: supporting_def updateCapabilities_def new_DebugSession_def)
  have ack: "\<forall>log u bs. \<exists>rs. adapter three_lines log (SetBreakpoints u False bs)
                 = Inr (Body_breakpoints rs) \<and> length rs \<le> length bs"
    by (simp add: three_lines_def verifying_def)
  have cd: "\<forall>log. \<exists>r. adapter three_lines log ConfigurationDone = Inr r"
    by (simp add: three_lines_def verifying_def)
  have st: "getUris (store three_lines) = [''file:///a.ts'', ''file:///b.ts'']"
    "findMarkers (store three_lines) (Some ''file:///a.ts'')
       = [decl 3 True, decl 4 False, decl 9 True]"
    "findMarkers (store three_lines) (Some ''file:///b.ts'') = [decl 1 True]"
    by (simp_all add: three_lines_def getUris_def findMarkers_def)
  have cap: "capability (supporting b) ''supportsConfigurationDoneRequest'' = b" for b
    by (simp add: supporting_def updateCapabilities_def new_DebugSession_def capability_def
          object_assign_def)
  have s0: "sent (supporting b) = []" for b
    by (simp add: supporting_def updateCapabilities_def new_DebugSession_def)
  from configure_sequence [OF live ack cd, of True] configure_sequence [OF live ack cd, of False] live
  show ?thesis
    by (simp add: st cap s0 decl_def line_at_def)
qed

text \<open>
  C6, as the code has it. When \<^verbatim>\<open>initialize\<close> succeeds and the \<^verbatim>\<open>launch\<close> or
  \<^verbatim>\<open>attach\<close> request fails,
  \<^verbatim>\<open>start\<close> fires \<^verbatim>\<open>exited\<close> with the reason on the session's own connection, and its
  promise rejects: with that same reason when the message client's promise resolves,
  and with the message client's error otherwise. The request is sent once: after
  \<^verbatim>\<open>initialize\<close> and the failed request nothing more goes to the adapter.
\<close>

theorem start_failure_exits_and_rethrows:
  assumes live: "\<not> disposed s"
    and init: "adapter e (sent s) (Initialize (cfg_type (configuration s))) = Inr r"
    and fail: "adapter e (sent s @ [Initialize (cfg_type (configuration s))])
                 (if cfg_request (configuration s) = ''attach''
                  then Attach (configuration s) else Launch (configuration s)) = Inl reason"
  shows "fst (start e s)
           = (case showMessage e (failure_text reason) of
                None \<Rightarrow> Some reason
              | Some err \<Rightarrow> Some err) \<and>
         fired (snd (start e s)) = fired s @ [Exited reason] \<and>
         sent (snd (start e s))
           = sent s @ [Initialize (cfg_type (configuration s)),
                       if cfg_request (configuration s) = ''attach''
                       then Attach (configuration s) else Launch (configuration s)]"
proof -
  let ?i = "Initialize (cfg_type (configuration s))"
  obtain s1 where s1: "initialize e s = (None, s1)" "sent s1 = sent s @ [?i]"
    "\<not> disposed s1" "configuration s1 = configuration s" "fired s1 = fired s"
    using live init
    by (cases r) (simp_all add: initialize_def sendRequest_live)
  have sr: "sendRequest e s1 (launch_request s1)
              = (Inl reason, s1\<lparr>sent := sent s1 @ [launch_request s1]\<rparr>)"
    using s1 fail by (auto simp: sendRequest_live launch_request_def split: if_splits)
  let ?s2 = "s1\<lparr>sent := sent s1 @ [launch_request s1],
                fired := fired s1 @ [Exited reason],
                shown := shown s1 @ [failure_text reason]\<rparr>"
  have "launchOrAttach e s1
          = (case showMessage e (failure_text reason) of
               None \<Rightarrow> (Some reason, ?s2)
             | Some err \<Rightarrow> (Some err, ?s2))"
    using sr
    by (simp add: launchOrAttach_def launch_request_def [symmetric] failure_text_def Let_def
          split: option.splits)
  with s1 show ?thesis
    by (simp add: start_def launch_request_def split: option.splits)
qed

text \<open>An adapter that answers \<^verbatim>\<open>initialize\<close> and refuses \<^verbatim>\<open>launch\<close>.\<close>

theorem start_failure_exits_and_rethrows_witness:
  "\<not> disposed (new_DebugSession ''s1'' plain_config) \<and>
   fst (start refusing (new_DebugSession ''s1'' plain_config)) = Some (Error ''cannot launch'') \<and>
   fired (snd (start refusing (new_DebugSession ''s1'' plain_config)))
     = [Exited (Error ''cannot launch'')] \<and>
   sent (snd (start refusing (new_DebugSession ''s1'' plain_config)))
     = [Initialize ''node'', Launch plain_config] \<and>
   shown (snd (start refusing (new_DebugSession ''s1'' plain_config))) = [''cannot launch'']"
proof -
  let ?s = "new_DebugSession ''s1'' plain_config"
  have live: "\<not> disposed ?s" by (simp add: new_DebugSession_def)
  have init: "adapter refusing (sent ?s) (Initialize (cfg_type (configuration ?s)))
                = Inr (Body_capabilities None)"
    by (simp add: refusing_def)
  have fail: "adapter refusing (sent ?s @ [Initialize (cfg_type (configuration ?s))])
                 (if cfg_request (configuration ?s) = ''attach''
                  then Attach (configuration ?s) else Launch (configuration ?s))
                = Inl (Error ''cannot launch'')"
    by (simp add: refusing_def new_DebugSession_def plain_config_def)
  have msg: "showMessage refusing t = None" for t by (simp add: refusing_def)
  have sh: "shown (snd (start refusing ?s)) = [''cannot launch'']"
    by (simp add: start_def initialize_def launchOrAttach_def sendRequest_def refusing_def
          new_DebugSession_def plain_config_def Let_def)
  from start_failure_exits_and_rethrows [OF live init fail] live sh msg show ?thesis
    by (simp add: new_DebugSession_def plain_config_def)
qed


text \<open>
  The same adapter with a message client whose promise rejects: \<^verbatim>\<open>exited\<close> is fired
  with the reason of the failed \<^verbatim>\<open>launch\<close>, but \<^verbatim>\<open>start\<close> rejects with the message
  client's error, not with that reason.
\<close>

theorem start_rejects_with_message_error:
  "\<not> disposed (new_DebugSession ''s1'' plain_config) \<and>
   adapter speechless [Initialize ''node''] (Launch plain_config) = Inl (Error ''cannot launch'') \<and>
   fired (snd (start speechless (new_DebugSession ''s1'' plain_config)))
     = [Exited (Error ''cannot launch'')] \<and>
   sent (snd (start speechless (new_DebugSession ''s1'' plain_config)))
     = [Initialize ''node'', Launch plain_config] \<and>
   fst (start speechless (new_DebugSession ''s1'' plain_config)) = Some (Error ''no ui'') \<and>
   fst (start speechless (new_DebugSession ''s1'' plain_config)) \<noteq> Some (Error ''cannot launch'')"
  by (simp add: start_def initialize_def launchOrAttach_def sendRequest_def speechless_def
        refusing_def new_DebugSession_def plain_config_def Let_def)

section \<open>Thread refresh\<close>

lemma chain_inv_step: "chain_inv c \<Longrightarrow> chain_inv (chain_step a c)"
proof (cases a)
  case (Call d)
  assume "chain_inv c" with Call show ?thesis by (simp add: chain_inv_def)
next
  case Turn
  assume "chain_inv c" with Turn show ?thesis
    by (cases "c_waiting c"; cases "c_inflight c") (simp_all add: chain_inv_def)
next
  case (Reply r)
  assume "chain_inv c" with Reply show ?thesis
    by (cases "c_inflight c") (simp_all add: chain_inv_def)
qed

lemma chain_inv_run: "chain_inv c \<Longrightarrow> chain_inv (chain_run acts c)"
  unfolding chain_run_def
  by (induction acts arbitrary: c) (simp_all add: chain_inv_step)

lemma refresh_failure_keeps: "same_threads s (snd (catch_log (refresh_result (Inl err) d s)))"
  by (simp add: refresh_result_def catch_log_def same_threads_def)

text \<open>
  C7. The promise of \<^verbatim>\<open>updateThreads\<close> always resolves. When the \<^verbatim>\<open>threads\<close> request
  fails, the thread map, the thread objects and the current thread are what they were
  before the call. On the chain of pending refreshes, whatever calls, turns and answers
  follow one another, at most one refresh is in flight, and the calls made are, in
  order, the refreshes finished, the one in flight and those still waiting: a refresh
  starts only behind the one before it. A call on an idle chain, followed by its turn
  and the adapter's answer, leaves the session as the one-step \<open>updateThreads\<close> does.
\<close>

theorem updateThreads_resolves_and_serializes:
  "fst (updateThreads e s d) = None \<and>
   ((\<exists>err. fst (sendRequest e s Threads) = Inl err) \<longrightarrow>
      threads (snd (updateThreads e s d)) = threads s \<and>
      objects (snd (updateThreads e s d)) = objects s \<and>
      currentThread (snd (updateThreads e s d)) = currentThread s) \<and>
   length (c_inflight (chain_run acts (idle s))) \<le> 1 \<and>
   c_called (chain_run acts (idle s))
     = c_done (chain_run acts (idle s)) @ c_inflight (chain_run acts (idle s))
       @ c_waiting (chain_run acts (idle s)) \<and>
   (\<not> disposed s \<longrightarrow>
      c_session (chain_run [Call d, Turn, Reply (adapter e (sent s) Threads)] (idle s))
        = snd (updateThreads e s d))"
proof -
  have keep: "threads (snd (updateThreads e s d)) = threads s \<and>
      objects (snd (updateThreads e s d)) = objects s \<and>
      currentThread (snd (updateThreads e s d)) = currentThread s"
    if "fst (sendRequest e s Threads) = Inl err" for err
  proof -
    obtain r s' where sr: "sendRequest e s Threads = (r, s')" by (cases "sendRequest e s Threads")
    with that have r: "r = Inl err" by simp
    from sr same_threads_sendRequest [of s e Threads] have "same_threads s s'" by simp
    with refresh_failure_keeps [of s' err d] have "same_threads s (snd (updateThreads e s d))"
      using sr r by (simp add: updateThreads_def same_threads_def)
    then show ?thesis by (simp add: same_threads_def)
  qed
  have "chain_inv (idle s)" by (simp add: chain_inv_def idle_def)
  then have inv: "chain_inv (chain_run acts (idle s))" by (rule chain_inv_run)
  have link: "c_session (chain_run [Call d, Turn, Reply (adapter e (sent s) Threads)] (idle s))
        = snd (updateThreads e s d)" if "\<not> disposed s"
    using that
    by (simp add: chain_run_def idle_def updateThreads_def sendRequest_live refresh_result_def
          catch_log_def doUpdateThreads_def split: sum.splits response.splits)
  from keep inv link show ?thesis
    by (auto simp: updateThreads_resolves chain_inv_def)
qed

text \<open>
  A configured session whose adapter stops answering: the refresh resolves, the thread
  map stays, the error is on the console; of two calls in a row the second waits.
\<close>

theorem updateThreads_resolves_and_serializes_witness:
  "fst (sendRequest failing configured Threads) = Inl (Error ''timeout'') \<and>
   \<not> disposed configured \<and>
   fst (updateThreads failing configured (Some (stop_of 2 None))) = None \<and>
   threads (snd (updateThreads failing configured (Some (stop_of 2 None)))) = threads configured \<and>
   threads configured = [(1, 0), (2, 1)] \<and>
   console (snd (updateThreads failing configured (Some (stop_of 2 None)))) = [Error ''timeout''] \<and>
   c_inflight (chain_run [Call None, Call (Some (stop_of 2 None)), Turn, Turn] (idle configured))
     = [None] \<and>
   c_waiting (chain_run [Call None, Call (Some (stop_of 2 None)), Turn, Turn] (idle configured))
     = [Some (stop_of 2 None)] \<and>
   c_session (chain_run [Call (Some (stop_of 2 None)), Turn,
                         Reply (adapter failing (sent configured) Threads)] (idle configured))
     = snd (updateThreads failing configured (Some (stop_of 2 None)))"
proof -
  have f: "fst (sendRequest failing configured Threads) = Inl (Error ''timeout'')"
    and l: "\<not> disposed configured"
    and t: "threads configured = [(1, 0), (2, 1)]"
    by (simp_all add: failing_def run_eval)
  have c: "console (snd (updateThreads failing configured (Some (stop_of 2 None))))
             = [Error ''timeout'']"
    by (simp add: failing_def run_eval)
  have q: "c_inflight (chain_run [Call None, Call (Some (stop_of 2 None)), Turn, Turn]
             (idle configured)) = [None]"
    "c_waiting (chain_run [Call None, Call (Some (stop_of 2 None)), Turn, Turn] (idle configured))
       = [Some (stop_of 2 None)]"
    using l by (simp_all add: chain_run_def idle_def)
  from updateThreads_resolves_and_serializes [of failing configured "Some (stop_of 2 None)"
      "[Call None, Call (Some (stop_of 2 None)), Turn, Turn]"] f l t c q
  show ?thesis by auto
qed

section \<open>The session manager\<close>

lemma next_id_set: "next_id (m\<lparr>configurationIds := map_set x n (configurationIds m)\<rparr>) x = Suc n"
  by (simp add: next_id_def map_of_map_set)

lemma frame_updateCurrentSession:
  "configurationIds (updateCurrentSession x m) = configurationIds m"
  "didCreate (updateCurrentSession x m) = didCreate m"
  by (simp_all add: updateCurrentSession_def)

lemma frame_remove:
  "configurationIds (remove i m) = configurationIds m"
  "didCreate (remove i m) = didCreate m"
  by (simp_all add: remove_def Let_def frame_updateCurrentSession split: option.splits)

lemma frame_doDestroy:
  "configurationIds (doDestroy s m) = configurationIds m"
  "didCreate (doDestroy s m) = didCreate m"
  by (simp_all add: doDestroy_def Let_def frame_remove frame_updateCurrentSession)

lemma frame_fold_doDestroy:
  "configurationIds (fold doDestroy ss m) = configurationIds m"
  "didCreate (fold doDestroy ss m) = didCreate m"
  by (induction ss arbitrary: m) (simp_all add: frame_doDestroy)

lemma frame_destroy:
  "configurationIds (destroy i m) = configurationIds m" "didCreate (destroy i m) = didCreate m"
  by (simp_all add: destroy_def frame_doDestroy frame_fold_doDestroy split: option.splits)

lemma start_fresh:
  assumes res: "\<forall>c. \<exists>rc. resolveDebugConfiguration me c = Inr rc"
    and var: "\<forall>c. \<exists>rc. variableResolver_resolve me c = Inr rc \<and>
                cfg_configurationId rc = cfg_configurationId c"
    and cre: "\<forall>ids c. \<exists>i. debugService_create me ids c = Inr i"
    and fresh: "\<not> cfg_resovled c"
  shows "ids_created (snd (manager_start me m c)) = ids_created m @ [Some (next_id m (cfg_name c))] \<and>
         next_id (snd (manager_start me m c)) (cfg_name c) = Suc (next_id m (cfg_name c))"
proof -
  from res obtain rc where rc: "resolveDebugConfiguration me c = Inr rc" by blast
  let ?n = "next_id m (cfg_name c)"
  let ?stamped = "rc\<lparr>cfg_resovled := True, cfg_configurationId := Some ?n\<rparr>"
  let ?m1 = "m\<lparr>configurationIds := map_set (cfg_name c) ?n (configurationIds m)\<rparr>"
  from var obtain rc' where rc': "variableResolver_resolve me ?stamped = Inr rc'"
    "cfg_configurationId rc' = Some ?n" by fastforce
  have r: "resolveConfiguration me m c = (Inr rc', ?m1)"
    using fresh rc rc'(1) by (simp add: resolveConfiguration_def next_id_def)
  from cre obtain i where i: "debugService_create me (map session_id (didCreate ?m1)) rc' = Inr i"
    by blast
  have "snd (manager_start me m c)
          = ?m1\<lparr>sessions_map := map_set i (new_DebugSession i rc') (sessions_map ?m1),
                didCreate := didCreate ?m1 @ [new_DebugSession i rc']\<rparr>"
    using r i by (simp add: manager_start_def doStart_def Let_def)
  then show ?thesis
    using rc'(2) by (simp add: ids_created_def new_DebugSession_def next_id_def map_of_map_set)
qed

lemma upt_shift: "[n ..< n + Suc k] = n # [Suc n ..< Suc n + k]"
  by (simp add: upt_conv_Cons)

lemma run_fresh:
  assumes res: "\<forall>c. \<exists>rc. resolveDebugConfiguration me c = Inr rc"
    and var: "\<forall>c. \<exists>rc. variableResolver_resolve me c = Inr rc \<and>
                cfg_configurationId rc = cfg_configurationId c"
    and cre: "\<forall>ids c. \<exists>i. debugService_create me ids c = Inr i"
    and fresh: "\<forall>c\<in>set (started ops). \<not> cfg_resovled c \<and> cfg_name c = x"
  shows "ids_created (manager_run me ops m)
           = ids_created m @ map Some [next_id m x ..< next_id m x + length (started ops)] \<and>
         next_id (manager_run me ops m) x = next_id m x + length (started ops)"
  using fresh
proof (induction ops arbitrary: m)
  case Nil
  show ?case by (simp add: manager_run_def)
next
  case (Cons op ops)
  show ?case
  proof (cases op)
    case (Start c)
    with Cons.prems have c: "\<not> cfg_resovled c" "cfg_name c = x" by simp_all
    let ?m' = "snd (manager_start me m c)"
    from start_fresh [OF res var cre c(1), of m] c(2)
    have 1: "ids_created ?m' = ids_created m @ [Some (next_id m x)]"
      "next_id ?m' x = Suc (next_id m x)" by simp_all
    from Cons.prems Start have "\<forall>c\<in>set (started ops). \<not> cfg_resovled c \<and> cfg_name c = x" by simp
    from Cons.IH [OF this, of ?m']
    have 2: "ids_created (manager_run me ops ?m')
               = ids_created ?m' @ map Some [next_id ?m' x ..< next_id ?m' x + length (started ops)]"
      and 3: "next_id (manager_run me ops ?m') x = next_id ?m' x + length (started ops)"
      by simp_all
    have run: "manager_run me (op # ops) m = manager_run me ops ?m'"
      using Start by (simp add: manager_run_def)
    have "ids_created (manager_run me (op # ops) m)
            = ids_created m @ Some (next_id m x)
                # map Some [Suc (next_id m x) ..< Suc (next_id m x) + length (started ops)]"
      using 1 2 run by simp
    also have "\<dots> = ids_created m
                 @ map Some [next_id m x ..< next_id m x + length (started (op # ops))]"
    proof -
      have "length (started (op # ops)) = Suc (length (started ops))" using Start by simp
      then show ?thesis by (simp only: upt_shift list.map)
    qed
    finally have "ids_created (manager_run me (op # ops) m)
            = ids_created m @ map Some [next_id m x ..< next_id m x + length (started (op # ops))]" .
    moreover have "next_id (manager_run me (op # ops) m) x
                     = next_id m x + length (started (op # ops))"
      using 1 3 run Start by simp
    ultimately show ?thesis by simp
  next
    case (Destroy i)
    have 1: "ids_created (destroy i m) = ids_created m" "next_id (destroy i m) x = next_id m x"
      by (simp_all add: ids_created_def next_id_def frame_destroy)
    from Cons.prems Destroy have "\<forall>c\<in>set (started ops). \<not> cfg_resovled c \<and> cfg_name c = x" by simp
    from Cons.IH [OF this, of "destroy i m"] 1 Destroy show ?thesis
      by (simp add: manager_run_def)
  qed
qed


text \<open>
  C8. Let the debug service and the variable resolver succeed, the resolver leaving the
  disambiguator of a configuration as it is. In a run of starts and destroys from a new
  manager in which every started configuration is not yet resolved and has the name
  \<open>x\<close>, the sessions are created with the disambiguators 0, 1, 2, ... in start order,
  wherever the destroys fall: a number is never used again. A configuration already
  marked resolved passes through \<^verbatim>\<open>resolveConfiguration\<close> unchanged, and the manager with
  it.
\<close>

theorem configuration_ids_count_up:
  assumes res: "\<forall>c. \<exists>rc. resolveDebugConfiguration me c = Inr rc"
    and var: "\<forall>c. \<exists>rc. variableResolver_resolve me c = Inr rc \<and>
                cfg_configurationId rc = cfg_configurationId c"
    and cre: "\<forall>ids c. \<exists>i. debugService_create me ids c = Inr i"
    and fresh: "\<forall>c\<in>set (started ops). \<not> cfg_resovled c \<and> cfg_name c = x"
  shows "map (\<lambda>s. cfg_configurationId (configuration s))
             (didCreate (manager_run me ops new_DebugSessionManager))
           = map Some [0 ..< length (started ops)] \<and>
         (\<forall>m c. cfg_resovled c \<longrightarrow> resolveConfiguration me m c = (Inr c, m))"
proof -
  have "next_id new_DebugSessionManager x = 0" "ids_created new_DebugSessionManager = []"
    by (simp_all add: next_id_def ids_created_def new_DebugSessionManager_def)
  with run_fresh [OF res var cre fresh, of new_DebugSessionManager]
  show ?thesis by (simp add: ids_created_def resolveConfiguration_def)
qed

text \<open>
  Three starts of \<open>X\<close>, the destruction of all sessions, and a fourth start: the
  disambiguators are 0, 1, 2 and 3, and no session is left before the fourth start.
\<close>

theorem configuration_ids_count_up_witness:
  "map (\<lambda>s. cfg_configurationId (configuration s))
     (didCreate (manager_run services
        [Start plain_config, Start plain_config, Start plain_config, Destroy None,
         Start plain_config]
        new_DebugSessionManager))
     = [Some 0, Some 1, Some 2, Some 3] \<and>
   sessions_map (manager_run services
        [Start plain_config, Start plain_config, Start plain_config, Destroy None]
        new_DebugSessionManager) = [] \<and>
   \<not> cfg_resovled plain_config \<and> cfg_name plain_config = ''X'' \<and>
   resolveConfiguration services new_DebugSessionManager (plain_config\<lparr>cfg_resovled := True\<rparr>)
     = (Inr (plain_config\<lparr>cfg_resovled := True\<rparr>), new_DebugSessionManager)"
proof -
  let ?ops = "[Start plain_config, Start plain_config, Start plain_config, Destroy None,
               Start plain_config]"
  have res: "\<forall>c. \<exists>rc. resolveDebugConfiguration services c = Inr rc"
    and var: "\<forall>c. \<exists>rc. variableResolver_resolve services c = Inr rc \<and>
                cfg_configurationId rc = cfg_configurationId c"
    and cre: "\<forall>ids c. \<exists>i. debugService_create services ids c = Inr i"
    by (simp_all add: services_def)
  have fresh: "\<forall>c\<in>set (started ?ops). \<not> cfg_resovled c \<and> cfg_name c = ''X''"
    by (simp add: plain_config_def)
  have upt: "[0 ..< length (started ?ops)] = [0, 1, 2, 3]"
    by (simp add: upt_rec)
  have gone: "sessions_map (manager_run services
        [Start plain_config, Start plain_config, Start plain_config, Destroy None]
        new_DebugSessionManager) = []"
    by (simp add: manager_run_def manager_start_def resolveConfiguration_def doStart_def
          services_def plain_config_def new_DebugSessionManager_def new_DebugSession_def
          destroy_def doDestroy_def remove_def updateCurrentSession_def sessions_def dispose_def
          clearBreakpoints_def doUpdateThreads_def updateCurrentThread_def first_thread_def
          state_def Let_def)
  from configuration_ids_count_up [OF res var cre fresh] upt gone show ?thesis
    by (simp add: plain_config_def)
qed

lemma getBreakpoints_of_resource:
  "set (getBreakpoints s (Some u)) \<subseteq> set (getBreakpoints s None)"
proof (cases "map_of (breakpoints s) u")
  case None
  then show ?thesis by (simp add: getBreakpoints_def)
next
  case (Some bs)
  then have "(u, bs) \<in> set (breakpoints s)" by (rule map_of_SomeD)
  then have "set bs \<subseteq> set (concat (map snd (breakpoints s)))" by force
  with Some show ?thesis by (simp add: getBreakpoints_def)
qed

text \<open>
  C10. Called with a URI, \<^verbatim>\<open>getBreakpoints\<close> of the manager takes the session given as
  second argument, or else the current session. When that session's state is past
  \<open>Initializing\<close>, the result is all breakpoints of the session, of every resource:
  the same for any URI, and holding the session's breakpoints of any resource. When the
  state is not past \<open>Initializing\<close>, or there is no session, the result is built from
  the markers the store finds for the URI.
\<close>

theorem manager_getBreakpoints_ignores_uri:
  "(state_value Initializing < state_value (state s) \<longrightarrow>
      manager_getBreakpoints st m (Arg_uri u) (Some s) = concat (map snd (breakpoints s)) \<and>
      manager_getBreakpoints st m (Arg_uri u) (Some s)
        = manager_getBreakpoints st m (Arg_uri u') (Some s) \<and>
      set (getBreakpoints s (Some u')) \<subseteq> set (manager_getBreakpoints st m (Arg_uri u) (Some s))) \<and>
   (currentSession m = Some s \<and> state_value Initializing < state_value (state s) \<longrightarrow>
      manager_getBreakpoints st m (Arg_uri u) None = concat (map snd (breakpoints s))) \<and>
   (\<not> state_value Initializing < state_value (state s) \<longrightarrow>
      manager_getBreakpoints st m (Arg_uri u) (Some s)
        = map new_DebugBreakpoint (findMarkers st (Some u))) \<and>
   (currentSession m = None \<longrightarrow>
      manager_getBreakpoints st m (Arg_uri u) None
        = map new_DebugBreakpoint (findMarkers st (Some u)))"
proof -
  have "set (getBreakpoints s (Some u')) \<subseteq> set (concat (map snd (breakpoints s)))"
    using getBreakpoints_of_resource [of s u'] by (simp add: getBreakpoints_def)
  then show ?thesis
    by (simp add: manager_getBreakpoints_def getBreakpoints_def)
qed

text \<open>
  A running session with breakpoints in two resources is asked for the breakpoints of
  one of them and gives both; a session that is still initializing gives the markers
  of the store for that resource.
\<close>

theorem manager_getBreakpoints_ignores_uri_witness:
  "state_value Initializing < state_value (state running_with) \<and>
   manager_getBreakpoints (store three_lines) new_DebugSessionManager
       (Arg_uri ''file:///b.ts'') (Some running_with)
     = [answered 3 3, answered 1 1] \<and>
   manager_getBreakpoints (store three_lines)
       (new_DebugSessionManager\<lparr>currentSession := Some running_with\<rparr>)
       (Arg_uri ''file:///b.ts'') None
     = [answered 3 3, answered 1 1] \<and>
   \<not> state_value Initializing < state_value (state (new_DebugSession ''s2'' plain_config)) \<and>
   manager_getBreakpoints (store three_lines) new_DebugSessionManager
       (Arg_uri ''file:///b.ts'') (Some (new_DebugSession ''s2'' plain_config))
     = [new_DebugBreakpoint (decl 1 True)] \<and>
   manager_getBreakpoints (store three_lines) new_DebugSessionManager
       (Arg_uri ''file:///b.ts'') None
     = [new_DebugBreakpoint (decl 1 True)]"
proof -
  let ?m = "new_DebugSessionManager\<lparr>currentSession := Some running_with\<rparr>"
  have past: "state_value Initializing < state_value (state running_with)"
    by (simp add: running_with_def state_def new_DebugSession_def stoppedThreads_def)
  have early: "\<not> state_value Initializing < state_value (state (new_DebugSession ''s2'' plain_config))"
    by (simp add: state_def new_DebugSession_def)
  have cur: "currentSession ?m = Some running_with" by simp
  have none: "currentSession new_DebugSessionManager = None"
    by (simp add: new_DebugSessionManager_def)
  have bps: "concat (map snd (breakpoints running_with)) = [answered 3 3, answered 1 1]"
    by (simp add: running_with_def)
  have ms: "findMarkers (store three_lines) (Some ''file:///b.ts'') = [decl 1 True]"
    by (simp add: three_lines_def findMarkers_def)
  from manager_getBreakpoints_ignores_uri
         [of running_with "store three_lines" new_DebugSessionManager "''file:///b.ts''" "''file:///a.ts''"]
       manager_getBreakpoints_ignores_uri
         [of running_with "store three_lines" ?m "''file:///b.ts''" "''file:///a.ts''"]
       manager_getBreakpoints_ignores_uri
         [of "new_DebugSession ''s2'' plain_config" "store three_lines" new_DebugSessionManager
             "''file:///b.ts''" "''file:///a.ts''"]
       past early cur none bps ms
  show ?thesis by simp
qed

end
